theory Spec2Isabelle
  imports Complex_Main "HOL-Library.Monad_Syntax"
begin

section \<open>Floating-point arithmetic as a parameter\<close>

text \<open>
  The C sources compute on \<^verbatim>\<open>float\<close> values. The arithmetic itself is not part of the
  repository, so the model takes it as a parameter: a record of the operators the sources
  use. Every theorem stated for an arbitrary \<open>ops\<close> holds for each interpretation of the
  operators, IEEE 754 binary32 among them. Each field stands for the C operator together
  with the conversions C inserts around it.
\<close>

record 'f float_ops =
  f_zero :: 'f
  f_one :: 'f
  f_eps :: 'f
  f_hundred :: 'f
  f_neg :: "'f \<Rightarrow> 'f"
  f_add :: "'f \<Rightarrow> 'f \<Rightarrow> 'f"
  f_sub :: "'f \<Rightarrow> 'f \<Rightarrow> 'f"
  f_mul :: "'f \<Rightarrow> 'f \<Rightarrow> 'f"
  f_div :: "'f \<Rightarrow> 'f \<Rightarrow> 'f"
  f_abs :: "'f \<Rightarrow> 'f"
  f_eq :: "'f \<Rightarrow> 'f \<Rightarrow> bool"
  f_gt :: "'f \<Rightarrow> 'f \<Rightarrow> bool"
  f_of_size :: "nat \<Rightarrow> 'f"

text \<open>\<^verbatim>\<open>result != result\<close>, the test for NaN of \<^verbatim>\<open>sle.c\<close>.\<close>

definition is_nan :: "'f float_ops \<Rightarrow> 'f \<Rightarrow> bool" where
  "is_nan ops v = (\<not> f_eq ops v v)"

text \<open>\<^verbatim>\<open>0.0 / 0.0\<close>, what both validators return for a null argument.\<close>

definition nan_literal :: "'f float_ops \<Rightarrow> 'f" where
  "nan_literal ops = f_div ops (f_zero ops) (f_zero ops)"

subsection \<open>One interpretation: exact arithmetic with the IEEE special values\<close>

text \<open>
  Finite values are rationals and are never rounded; a division by zero gives an infinity
  or NaN as IEEE 754 prescribes (the sign of a zero is not modelled). The interpretation
  serves for the statements about exact arithmetic and for the concrete runs.
\<close>

datatype xfloat = Num rat | PInf | NInf | NaN

fun x_neg :: "xfloat \<Rightarrow> xfloat" where
  "x_neg (Num r) = Num (- r)"
| "x_neg PInf = NInf"
| "x_neg NInf = PInf"
| "x_neg NaN = NaN"

fun x_abs :: "xfloat \<Rightarrow> xfloat" where
  "x_abs (Num r) = Num \<bar>r\<bar>"
| "x_abs PInf = PInf"
| "x_abs NInf = PInf"
| "x_abs NaN = NaN"

fun x_add :: "xfloat \<Rightarrow> xfloat \<Rightarrow> xfloat" where
  "x_add (Num r) (Num s) = Num (r + s)"
| "x_add NaN _ = NaN"
| "x_add _ NaN = NaN"
| "x_add PInf NInf = NaN"
| "x_add NInf PInf = NaN"
| "x_add PInf _ = PInf"
| "x_add NInf _ = NInf"
| "x_add _ PInf = PInf"
| "x_add _ NInf = NInf"

definition x_sub :: "xfloat \<Rightarrow> xfloat \<Rightarrow> xfloat" where
  "x_sub u v = x_add u (x_neg v)"

text \<open>The sign of a value: \<open>1\<close>, \<open>0\<close> or \<open>-1\<close>; NaN has none.\<close>

fun x_sgn :: "xfloat \<Rightarrow> int" where
  "x_sgn (Num r) = (if r > 0 then 1 else if r < 0 then - 1 else 0)"
| "x_sgn PInf = 1"
| "x_sgn NInf = - 1"
| "x_sgn NaN = 0"

definition x_inf :: "int \<Rightarrow> xfloat" where
  "x_inf s = (if s > 0 then PInf else if s < 0 then NInf else NaN)"

fun x_mul :: "xfloat \<Rightarrow> xfloat \<Rightarrow> xfloat" where
  "x_mul (Num r) (Num s) = Num (r * s)"
| "x_mul NaN _ = NaN"
| "x_mul _ NaN = NaN"
| "x_mul u v = x_inf (x_sgn u * x_sgn v)"

fun x_div :: "xfloat \<Rightarrow> xfloat \<Rightarrow> xfloat" where
  "x_div (Num r) (Num s) = (if s = 0 then x_inf (x_sgn (Num r)) else Num (r / s))"
| "x_div NaN _ = NaN"
| "x_div _ NaN = NaN"
| "x_div (Num r) _ = Num 0"
| "x_div u (Num s) = x_inf (x_sgn u * (if s < 0 then - 1 else 1))"
| "x_div _ _ = NaN"

fun x_eq :: "xfloat \<Rightarrow> xfloat \<Rightarrow> bool" where
  "x_eq NaN _ = False"
| "x_eq _ NaN = False"
| "x_eq u v = (u = v)"

fun x_gt :: "xfloat \<Rightarrow> xfloat \<Rightarrow> bool" where
  "x_gt (Num r) (Num s) = (r > s)"
| "x_gt NaN _ = False"
| "x_gt _ NaN = False"
| "x_gt PInf v = (v \<noteq> PInf)"
| "x_gt u NInf = (u \<noteq> NInf)"
| "x_gt _ _ = False"

definition xops :: "xfloat float_ops" where
  "xops = \<lparr> f_zero = Num 0, f_one = Num 1, f_eps = Num (1 / 10 ^ 30), f_hundred = Num 100,
            f_neg = x_neg, f_add = x_add, f_sub = x_sub, f_mul = x_mul, f_div = x_div,
            f_abs = x_abs, f_eq = x_eq, f_gt = x_gt, f_of_size = (\<lambda>n. Num (of_nat n)) \<rparr>"

section \<open>Data model: \<^verbatim>\<open>diagonal.h\<close>, \<^verbatim>\<open>sle.h\<close> and the heap\<close>

text \<open>
  Pointers are optional addresses, \<open>None\<close> being \<^verbatim>\<open>NULL\<close>. The heap holds the
  \<^verbatim>\<open>diagonal_t\<close> objects and the \<^verbatim>\<open>float\<close> blocks separately; a block is the list of its
  cells, so its length is the number of floats that were allocated. A
  \<^verbatim>\<open>triSLE_t\<close> is passed by its five fields, which no function of the sources changes.
\<close>

type_synonym addr = nat

record diagonal_t =
  diag_n :: nat
  diag_data :: "addr option"

record triSLE_t =
  sle_a :: "addr option"
  sle_b :: "addr option"
  sle_c :: "addr option"
  sle_d :: "addr option"
  sle_x :: "addr option"

record 'f heap =
  diags :: "addr \<rightharpoonup> diagonal_t"
  bufs :: "addr \<rightharpoonup> 'f list"

text \<open>
  Every function of the model returns an option: \<open>None\<close> is undefined behaviour of the C
  program (a null or dangling pointer dereferenced, an access outside a block, a signed
  overflow), which the sources never test for. The C status codes stay integers:
  \<open>0\<close> for success, \<open>-1\<close> for every failure.
\<close>

definition deref_diag :: "'f heap \<Rightarrow> addr option \<Rightarrow> diagonal_t option" where
  "deref_diag h p = (case p of None \<Rightarrow> None | Some q \<Rightarrow> diags h q)"

definition deref_buf :: "'f heap \<Rightarrow> addr option \<Rightarrow> 'f list option" where
  "deref_buf h p = (case p of None \<Rightarrow> None | Some q \<Rightarrow> bufs h q)"

text \<open>\<^verbatim>\<open>dp->data\<close> and the cells behind it.\<close>

definition data_ptr :: "'f heap \<Rightarrow> addr option \<Rightarrow> addr option" where
  "data_ptr h dp = Option.bind (deref_diag h dp) diag_data"

definition buf_of :: "'f heap \<Rightarrow> addr option \<Rightarrow> 'f list option" where
  "buf_of h dp = Option.bind (deref_diag h dp) (\<lambda>dg. deref_buf h (diag_data dg))"

text \<open>\<^verbatim>\<open>dp->data = v\<close>.\<close>

definition set_data :: "'f heap \<Rightarrow> addr option \<Rightarrow> addr option \<Rightarrow> 'f heap option" where
  "set_data h dp v =
     (case dp of None \<Rightarrow> None
      | Some q \<Rightarrow> (case diags h q of None \<Rightarrow> None
          | Some dg \<Rightarrow> Some (h\<lparr>diags := (diags h)(q \<mapsto> dg\<lparr>diag_data := v\<rparr>)\<rparr>)))"

text \<open>
  \<^verbatim>\<open>free(p)\<close>: nothing happens for a null pointer; a pointer that is not the address of a
  live block is undefined behaviour.
\<close>

definition free_buf :: "'f heap \<Rightarrow> addr option \<Rightarrow> 'f heap option" where
  "free_buf h p =
     (case p of None \<Rightarrow> Some h
      | Some q \<Rightarrow> (if bufs h q = None then None else Some (h\<lparr>bufs := (bufs h)(q := None)\<rparr>)))"

definition free_diag :: "'f heap \<Rightarrow> addr option \<Rightarrow> 'f heap option" where
  "free_diag h p =
     (case p of None \<Rightarrow> Some h
      | Some q \<Rightarrow> (if diags h q = None then None else Some (h\<lparr>diags := (diags h)(q := None)\<rparr>)))"

text \<open>
  \<^verbatim>\<open>malloc(n * sizeof(float))\<close>. What the allocator answers is an input of the model:
  \<open>None\<close> when it returns \<^verbatim>\<open>NULL\<close>, otherwise the address of the new block and the
  indeterminate contents of its cells.
\<close>

type_synonym 'f malloc_result = "(addr \<times> (nat \<Rightarrow> 'f)) option"

definition malloc_buf :: "'f heap \<Rightarrow> nat \<Rightarrow> 'f malloc_result \<Rightarrow> addr option \<times> 'f heap" where
  "malloc_buf h n r =
     (case r of None \<Rightarrow> (None, h)
      | Some (p, g) \<Rightarrow> (Some p, h\<lparr>bufs := (bufs h)(p \<mapsto> map g [0..<n])\<rparr>))"

text \<open>
  \<^verbatim>\<open>memcpy(dst, src, n * sizeof(float))\<close> between two blocks: both must hold \<open>n\<close> cells,
  and what is copied must not overlap.
\<close>

definition memcpy :: "'f heap \<Rightarrow> addr option \<Rightarrow> addr option \<Rightarrow> nat \<Rightarrow> 'f heap option" where
  "memcpy h dst src n =
     (case (dst, deref_buf h dst, deref_buf h src) of
        (Some q, Some ds, Some ss) \<Rightarrow>
          (if (0 < n \<and> dst = src) \<or> length ds < n \<or> length ss < n then None
           else Some (h\<lparr>bufs := (bufs h)(q \<mapsto> take n ss @ drop n ds)\<rparr>))
      | _ \<Rightarrow> None)"

section \<open>\<^verbatim>\<open>diagonal.c\<close>\<close>

text \<open>
  \<^verbatim>\<open>FREE_IF_NOT_NULL(diag->data)\<close> of \<^verbatim>\<open>util.h\<close>: the macro evaluates \<^verbatim>\<open>diag->data\<close>
  first, whatever \<^verbatim>\<open>diag\<close> is.
\<close>

definition free_data_if_not_null :: "'f heap \<Rightarrow> addr option \<Rightarrow> 'f heap option" where
  "free_data_if_not_null h diag =
     Option.bind (deref_diag h diag) (\<lambda>dg.
       (case diag_data dg of None \<Rightarrow> Some h
        | Some p \<Rightarrow> Option.bind (free_buf h (Some p)) (\<lambda>h'. set_data h' diag None)))"

definition diagonal_destroy :: "'f heap \<Rightarrow> addr option \<Rightarrow> (int \<times> 'f heap) option" where
  "diagonal_destroy h diag =
     Option.bind (free_data_if_not_null h diag) (\<lambda>h1.
     Option.bind (free_diag h1 diag) (\<lambda>h2.
     Some (0, h2)))"

section \<open>\<^verbatim>\<open>sle.c\<close>: copy\<close>

definition triSLE_copy ::
  "'f heap \<Rightarrow> triSLE_t option \<Rightarrow> triSLE_t option \<Rightarrow> (int \<times> 'f heap) option" where
  "triSLE_copy h dest src =
     (case (dest, src) of
        (Some dst, Some sr) \<Rightarrow>
          Option.bind (deref_diag h (sle_b sr)) (\<lambda>db. let n = diag_n db in
          Option.bind (memcpy h (data_ptr h (sle_a dst)) (data_ptr h (sle_a sr)) n) (\<lambda>h1.
          Option.bind (memcpy h1 (data_ptr h1 (sle_b dst)) (data_ptr h1 (sle_b sr)) n) (\<lambda>h2.
          Option.bind (memcpy h2 (data_ptr h2 (sle_c dst)) (data_ptr h2 (sle_c sr)) n) (\<lambda>h3.
          Option.bind (memcpy h3 (data_ptr h3 (sle_d dst)) (data_ptr h3 (sle_d sr)) n) (\<lambda>h4.
          Some (0, h4))))))
      | _ \<Rightarrow> Some (- 1, h))"

section \<open>\<^verbatim>\<open>pcr.c\<close>\<close>

text \<open>\<^verbatim>\<open>-into_value / (decoupling_value == 0 ? EPSILON : decoupling_value)\<close>.\<close>

definition compute_decoupling_coeffs :: "'f float_ops \<Rightarrow> 'f \<Rightarrow> 'f \<Rightarrow> 'f" where
  "compute_decoupling_coeffs ops decoupling_value into_value =
     f_div ops (f_neg ops into_value)
       (if f_eq ops decoupling_value (f_zero ops) then f_eps ops else decoupling_value)"

definition INT_MAX :: int where
  "INT_MAX = 2147483647"

text \<open>
  The body of the loop of \<^verbatim>\<open>update_step\<close> for the row \<open>i\<close>: the values stored into
  \<^verbatim>\<open>tmp_a[i]\<close>, \<^verbatim>\<open>tmp_b[i]\<close>, \<^verbatim>\<open>tmp_c[i]\<close> and \<^verbatim>\<open>tmp_d[i]\<close>. The indices are C
  \<^verbatim>\<open>int\<close>s, here integers; \<^verbatim>\<open>update_step\<close> below excludes the inputs on which they
  overflow.
\<close>

definition update_row ::
  "'f float_ops \<Rightarrow> nat \<Rightarrow> int \<Rightarrow> 'f list \<Rightarrow> 'f list \<Rightarrow> 'f list \<Rightarrow> 'f list \<Rightarrow> nat
     \<Rightarrow> 'f \<times> 'f \<times> 'f \<times> 'f" where
  "update_row ops n stride sa sb sc sd i =
     (let iRight = int i + stride;
          iLeft = int i - stride;
          alpha = compute_decoupling_coeffs ops
                    (if iLeft < 0 then f_one ops else sb ! nat iLeft) (sa ! i);
          gamma = compute_decoupling_coeffs ops
                    (if iRight < int n then sb ! nat iRight else f_one ops) (sc ! i);
          sa_iLeft = (if iLeft < 0 then f_zero ops else sa ! nat iLeft);
          sc_iLeft = (if iLeft < 0 then f_zero ops else sc ! nat iLeft);
          sd_iLeft = (if iLeft < 0 then f_zero ops else sd ! nat iLeft);
          sa_iRight = (if iRight \<ge> int n then f_zero ops else sa ! nat iRight);
          sc_iRight = (if iRight \<ge> int n then f_zero ops else sc ! nat iRight);
          sd_iRight = (if iRight \<ge> int n then f_zero ops else sd ! nat iRight)
      in (f_mul ops alpha sa_iLeft,
          f_add ops (f_add ops (sb ! i) (f_mul ops alpha sc_iLeft)) (f_mul ops gamma sa_iRight),
          f_mul ops gamma sc_iRight,
          f_add ops (f_add ops (sd ! i) (f_mul ops alpha sd_iLeft)) (f_mul ops gamma sd_iRight)))"

text \<open>
  \<^verbatim>\<open>update_step\<close>. The rows of the parallel loop read the four blocks of the system and
  each writes its own cell of the four \<^verbatim>\<open>tmp\<close> blocks, so the loop is a map over the
  rows whenever the blocks written are apart from the blocks read and from each other,
  which the \<^verbatim>\<open>restrict\<close> qualifiers demand. Undefined, hence \<open>None\<close>:
  \<^item> a block written that is also one of the others (\<^verbatim>\<open>restrict\<close>);
  \<^item> \<^verbatim>\<open>1 << level\<close> with \<open>level \<ge> 31\<close>, \<^verbatim>\<open>(int)n\<close> out of range, and
    \<^verbatim>\<open>i + (int)stride\<close> beyond \<^verbatim>\<open>INT_MAX\<close> for the last row;
  \<^item> a block shorter than \<open>n\<close>: every row \<open>i < n\<close> reads the cell \<open>i\<close> of each block of the
    system and writes the cell \<open>i\<close> of each \<^verbatim>\<open>tmp\<close> block, and the neighbours read lie
    in \<open>[0, n)\<close>.
  With \<open>n = 0\<close> the loop does not run and no block is touched. The function always
  returns 0, which \<^verbatim>\<open>pcr\<close> ignores; the model returns the heap only.
\<close>

definition update_step ::
  "'f float_ops \<Rightarrow> 'f heap \<Rightarrow> triSLE_t \<Rightarrow> addr option \<Rightarrow> addr option \<Rightarrow> addr option
     \<Rightarrow> addr option \<Rightarrow> nat \<Rightarrow> 'f heap option" where
  "update_step ops h inout_sle tmp_a tmp_b tmp_c tmp_d level =
     Option.bind (deref_diag h (sle_b inout_sle)) (\<lambda>db. let n = diag_n db in
     Option.bind (deref_diag h (sle_a inout_sle)) (\<lambda>da.
     Option.bind (deref_diag h (sle_c inout_sle)) (\<lambda>dc.
     Option.bind (deref_diag h (sle_d inout_sle)) (\<lambda>dd.
       if \<not> level < 31 then None
       else if n = 0 then Some h
       else if \<not> int n - 1 + 2 ^ level \<le> INT_MAX then None
       else
         (case (tmp_a, tmp_b, tmp_c, tmp_d) of
            (Some ta, Some tb, Some tc, Some td) \<Rightarrow>
              (case (deref_buf h (diag_data da), deref_buf h (diag_data db),
                     deref_buf h (diag_data dc), deref_buf h (diag_data dd),
                     bufs h ta, bufs h tb, bufs h tc, bufs h td) of
                 (Some sa, Some sb, Some sc, Some sd, Some oa, Some ob, Some oc, Some od) \<Rightarrow>
                   if \<not> distinct [ta, tb, tc, td]
                      \<or> list_ex (\<lambda>t. t \<in> set [diag_data da, diag_data db, diag_data dc, diag_data dd])
                           [tmp_a, tmp_b, tmp_c, tmp_d]
                   then None
                   else if list_ex (\<lambda>xs. length xs < n) [sa, sb, sc, sd, oa, ob, oc, od]
                   then None
                   else
                     (let rows = map (update_row ops n (2 ^ level) sa sb sc sd) [0..<n]
                      in Some (h\<lparr>bufs := (bufs h)
                           (ta \<mapsto> map (\<lambda>r. fst r) rows @ drop n oa,
                            tb \<mapsto> map (\<lambda>r. fst (snd r)) rows @ drop n ob,
                            tc \<mapsto> map (\<lambda>r. fst (snd (snd r))) rows @ drop n oc,
                            td \<mapsto> map (\<lambda>r. snd (snd (snd r))) rows @ drop n od)\<rparr>))
               | _ \<Rightarrow> None)
          | _ \<Rightarrow> None)))))"

text \<open>
  The block \<^verbatim>\<open>swap = sle->a->data; sle->a->data = a_data_tmp; a_data_tmp = swap;\<close> for
  one diagonal: the new heap and the new value of the local pointer.
\<close>

definition swap_data ::
  "'f heap \<Rightarrow> addr option \<Rightarrow> addr option \<Rightarrow> ('f heap \<times> addr option) option" where
  "swap_data h dp tmp =
     Option.bind (deref_diag h dp) (\<lambda>dg.
     Option.bind (set_data h dp tmp) (\<lambda>h'.
     Some (h', diag_data dg)))"

type_synonym tmp_ptrs = "addr option \<times> addr option \<times> addr option \<times> addr option"

text \<open>The four swaps, as \<^verbatim>\<open>pcr\<close> writes them after each level and once more at the end.\<close>

definition swap_buffers ::
  "'f heap \<Rightarrow> triSLE_t \<Rightarrow> tmp_ptrs \<Rightarrow> ('f heap \<times> tmp_ptrs) option" where
  "swap_buffers h sle tmps =
     (case tmps of (a_data_tmp, b_data_tmp, c_data_tmp, d_data_tmp) \<Rightarrow>
        (case swap_data h (sle_a sle) a_data_tmp of None \<Rightarrow> None
         | Some (h1, a') \<Rightarrow>
        (case swap_data h1 (sle_b sle) b_data_tmp of None \<Rightarrow> None
         | Some (h2, b') \<Rightarrow>
        (case swap_data h2 (sle_c sle) c_data_tmp of None \<Rightarrow> None
         | Some (h3, c') \<Rightarrow>
        (case swap_data h3 (sle_d sle) d_data_tmp of None \<Rightarrow> None
         | Some (h4, d') \<Rightarrow> Some (h4, (a', b', c', d')))))))"

text \<open>One turn of the level loop: \<^verbatim>\<open>update_step\<close>, then the swaps.\<close>

definition level_body ::
  "'f float_ops \<Rightarrow> triSLE_t \<Rightarrow> nat \<Rightarrow> 'f heap \<times> tmp_ptrs \<Rightarrow> ('f heap \<times> tmp_ptrs) option" where
  "level_body ops sle level st =
     (case st of (h, (a_data_tmp, b_data_tmp, c_data_tmp, d_data_tmp)) \<Rightarrow>
        (case update_step ops h sle a_data_tmp b_data_tmp c_data_tmp d_data_tmp level of
           None \<Rightarrow> None
         | Some h1 \<Rightarrow> swap_buffers h1 sle (a_data_tmp, b_data_tmp, c_data_tmp, d_data_tmp)))"

text \<open>\<^verbatim>\<open>for (size_t level = 0; level < total_levels; level++)\<close>, entered at \<open>level\<close>.\<close>

function pcr_levels ::
  "'f float_ops \<Rightarrow> triSLE_t \<Rightarrow> nat \<Rightarrow> nat \<Rightarrow> 'f heap \<times> tmp_ptrs
     \<Rightarrow> ('f heap \<times> tmp_ptrs) option" where
  "pcr_levels ops sle total_levels level st =
     (if level < total_levels then
        (case level_body ops sle level st of
           None \<Rightarrow> None
         | Some st' \<Rightarrow> pcr_levels ops sle total_levels (Suc level) st')
      else Some st)"
  by pat_completeness auto
termination
  by (relation "measure (\<lambda>(ops, sle, total_levels, level, st). total_levels - level)") auto

declare pcr_levels.simps [simp del]

text \<open>
  The loop \<^verbatim>\<open>sle->x->data[i] = sle->d->data[i] / sle->b->data[i]\<close> over \<open>i < n\<close>. Each
  row reads and writes the cell \<open>i\<close> only, so the rows are independent even if the blocks
  coincide. A float division never traps.
\<close>

definition solve_rows :: "'f float_ops \<Rightarrow> 'f heap \<Rightarrow> triSLE_t \<Rightarrow> nat \<Rightarrow> 'f heap option" where
  "solve_rows ops h sle n =
     (case (data_ptr h (sle_x sle), buf_of h (sle_x sle), buf_of h (sle_d sle),
            buf_of h (sle_b sle)) of
        (Some px, Some xs, Some ds, Some bs) \<Rightarrow>
          if length xs < n \<or> length ds < n \<or> length bs < n then None
          else Some (h\<lparr>bufs := (bufs h)
                 (px \<mapsto> map (\<lambda>i. f_div ops (ds ! i) (bs ! i)) [0..<n] @ drop n xs)\<rparr>)
      | _ \<Rightarrow> None)"

text \<open>
  \<^verbatim>\<open>(size_t)ceil(log2((float)n))\<close>. The conversion of \<open>n\<close> to \<^verbatim>\<open>float\<close> rounds to the
  nearest value with a significand of 24 bits, ties to the even significand;
  \<open>float_of_size n\<close> is that value, which is a natural number. Its logarithm is taken in
  double precision: the result is exact at a power of two and otherwise further from
  every integer than the error of \<^verbatim>\<open>log2\<close>, so its ceiling is \<open>ceil_log2\<close>, the least
  \<open>l\<close> with \<open>m \<le> 2 ^ l\<close>.
\<close>

fun bit_length :: "nat \<Rightarrow> nat" where
  "bit_length n = (if n = 0 then 0 else Suc (bit_length (n div 2)))"

declare bit_length.simps [simp del]

definition float_of_size :: "nat \<Rightarrow> nat" where
  "float_of_size n =
     (let k = bit_length n in
      if k \<le> 24 then n
      else
        (let sh = k - 24;
             q = n div 2 ^ sh;
             r = n mod 2 ^ sh;
             half = 2 ^ (sh - 1)
         in (if r > half \<or> (r = half \<and> odd q) then q + 1 else q) * 2 ^ sh))"

fun ceil_log2 :: "nat \<Rightarrow> nat" where
  "ceil_log2 m = (if m \<le> 1 then 0 else Suc (ceil_log2 ((m + 1) div 2)))"

declare ceil_log2.simps [simp del]

definition total_levels_of :: "nat \<Rightarrow> nat" where
  "total_levels_of n = ceil_log2 (float_of_size n)"

text \<open>What the four calls of \<^verbatim>\<open>malloc\<close> in \<^verbatim>\<open>pcr\<close> answer, in the order of the calls.\<close>

record 'f pcr_env =
  env_a :: "'f malloc_result"
  env_b :: "'f malloc_result"
  env_c :: "'f malloc_result"
  env_d :: "'f malloc_result"

text \<open>
  \<^verbatim>\<open>free(a_data_tmp); free(b_data_tmp); free(c_data_tmp); free(d_data_tmp);\<close>
\<close>

definition free_tmps :: "'f heap \<Rightarrow> tmp_ptrs \<Rightarrow> 'f heap option" where
  "free_tmps h tmps =
     (case tmps of (a_data_tmp, b_data_tmp, c_data_tmp, d_data_tmp) \<Rightarrow>
        Option.bind (free_buf h a_data_tmp) (\<lambda>h1.
        Option.bind (free_buf h1 b_data_tmp) (\<lambda>h2.
        Option.bind (free_buf h2 c_data_tmp) (\<lambda>h3.
        free_buf h3 d_data_tmp))))"

text \<open>
  The four \<^verbatim>\<open>memcpy\<close> calls that copy the blocks of the system into the \<^verbatim>\<open>tmp\<close> blocks
  when the number of levels is odd.
\<close>

definition copy_back :: "'f heap \<Rightarrow> triSLE_t \<Rightarrow> tmp_ptrs \<Rightarrow> nat \<Rightarrow> 'f heap option" where
  "copy_back h sle tmps n =
     (case tmps of (a_data_tmp, b_data_tmp, c_data_tmp, d_data_tmp) \<Rightarrow>
        Option.bind (memcpy h a_data_tmp (data_ptr h (sle_a sle)) n) (\<lambda>h1.
        Option.bind (memcpy h1 b_data_tmp (data_ptr h1 (sle_b sle)) n) (\<lambda>h2.
        Option.bind (memcpy h2 c_data_tmp (data_ptr h2 (sle_c sle)) n) (\<lambda>h3.
        memcpy h3 d_data_tmp (data_ptr h3 (sle_d sle)) n))))"

text \<open>
  \<^verbatim>\<open>pcr\<close>. The two timers are only written (\<^verbatim>\<open>TIME_GET\<close>) and are left out; the model
  is of the calls that pass two valid timers.
\<close>

definition pcr ::
  "'f float_ops \<Rightarrow> 'f pcr_env \<Rightarrow> 'f heap \<Rightarrow> triSLE_t option \<Rightarrow> (int \<times> 'f heap) option" where
  "pcr ops env h sle =
     (case sle of None \<Rightarrow> Some (- 1, h)
      | Some s \<Rightarrow>
          Option.bind (deref_diag h (sle_b s)) (\<lambda>db. let n = diag_n db in
            if n = 0 then Some (0, h)
            else
              (let total_levels = total_levels_of n;
                   (a_data_tmp, h1) = malloc_buf h n (env_a env);
                   (b_data_tmp, h2) = malloc_buf h1 n (env_b env);
                   (c_data_tmp, h3) = malloc_buf h2 n (env_c env);
                   (d_data_tmp, h4) = malloc_buf h3 n (env_d env);
                   tmps = (a_data_tmp, b_data_tmp, c_data_tmp, d_data_tmp)
               in if a_data_tmp = None \<or> b_data_tmp = None \<or> c_data_tmp = None
                     \<or> d_data_tmp = None
                  then Option.bind (free_tmps h4 tmps) (\<lambda>h5. Some (- 1, h5))
                  else
                    Option.bind (pcr_levels ops s total_levels 0 (h4, tmps)) (\<lambda>(h5, tmps1).
                    Option.bind (solve_rows ops h5 s n) (\<lambda>h6.
                    Option.bind
                      (if odd total_levels
                       then Option.bind (copy_back h6 s tmps1 n) (\<lambda>h7.
                              swap_buffers h7 s tmps1)
                       else Some (h6, tmps1)) (\<lambda>(h8, tmps2).
                    Option.bind (free_tmps h8 tmps2) (\<lambda>h9.
                    Some (0, h9))))))))"

section \<open>\<^verbatim>\<open>sle.c\<close>: the validators\<close>

text \<open>\<^verbatim>\<open>dp->data[i]\<close>, undefined outside the block.\<close>

definition rd :: "'f heap \<Rightarrow> addr option \<Rightarrow> nat \<Rightarrow> 'f option" where
  "rd h dp i = Option.bind (buf_of h dp) (\<lambda>xs. if i < length xs then Some (xs ! i) else None)"

text \<open>
  The first lines of both loop bodies, which compute \<^verbatim>\<open>result\<close> for the row \<open>i\<close> from
  the coefficients of \<^verbatim>\<open>initial_system\<close> and the \<open>x\<close> of \<^verbatim>\<open>result_system\<close>. Here \<open>n\<close> is
  \<^verbatim>\<open>initial_system->b->n\<close> and \<open>i < n\<close>, so \<^verbatim>\<open>n - 1\<close> does not wrap.
\<close>

definition residual ::
  "'f float_ops \<Rightarrow> 'f heap \<Rightarrow> triSLE_t \<Rightarrow> triSLE_t \<Rightarrow> nat \<Rightarrow> nat \<Rightarrow> 'f option" where
  "residual ops h result_system initial_system n i =
     Option.bind (rd h (sle_b initial_system) i) (\<lambda>bi.
     Option.bind (rd h (sle_x result_system) i) (\<lambda>xi.
     Option.bind
       (if i > 0
        then Option.bind (rd h (sle_a initial_system) i) (\<lambda>ai.
             Option.bind (rd h (sle_x result_system) (i - 1)) (\<lambda>xl.
             Some (f_add ops (f_mul ops bi xi) (f_mul ops ai xl))))
        else Some (f_mul ops bi xi)) (\<lambda>result.
       (if i < n - 1
        then Option.bind (rd h (sle_c initial_system) i) (\<lambda>ci.
             Option.bind (rd h (sle_x result_system) (i + 1)) (\<lambda>xr.
             Some (f_add ops result (f_mul ops ci xr))))
        else Some result))))"

text \<open>
  The loop of \<^verbatim>\<open>triSLE_validate_maxrel\<close>, entered at row \<open>i\<close> with the maximum so far.
  The \<^verbatim>\<open>break\<close> leaves the loop with \<^verbatim>\<open>result\<close> as the value returned.
\<close>

function maxrel_loop ::
  "'f float_ops \<Rightarrow> 'f heap \<Rightarrow> triSLE_t \<Rightarrow> triSLE_t \<Rightarrow> nat \<Rightarrow> nat \<Rightarrow> 'f \<Rightarrow> 'f option" where
  "maxrel_loop ops h result_system initial_system n i max_relative_error =
     (if i < n then
        (case residual ops h result_system initial_system n i of
           None \<Rightarrow> None
         | Some result \<Rightarrow>
             if \<not> f_eq ops result result then Some result
             else
               (case rd h (sle_d initial_system) i of
                  None \<Rightarrow> None
                | Some expected \<Rightarrow>
                    maxrel_loop ops h result_system initial_system n (Suc i)
                      (if \<not> f_eq ops expected (f_zero ops) then
                         (let relative_error =
                                f_div ops (f_abs ops (f_sub ops result expected))
                                  (f_abs ops expected)
                          in if f_gt ops relative_error max_relative_error
                             then relative_error else max_relative_error)
                       else max_relative_error)))
      else Some max_relative_error)"
  by pat_completeness auto
termination
  by (relation "measure (\<lambda>(ops, h, rs, is, n, i, m). n - i)") auto

declare maxrel_loop.simps [simp del]

definition triSLE_validate_maxrel ::
  "'f float_ops \<Rightarrow> 'f heap \<Rightarrow> triSLE_t option \<Rightarrow> triSLE_t option \<Rightarrow> 'f option" where
  "triSLE_validate_maxrel ops h result_system initial_system =
     (case (result_system, initial_system) of
        (Some rs, Some is) \<Rightarrow>
          Option.bind (deref_diag h (sle_b is)) (\<lambda>db.
            maxrel_loop ops h rs is (diag_n db) 0 (f_zero ops))
      | _ \<Rightarrow> Some (nan_literal ops))"

text \<open>The loop of \<^verbatim>\<open>triSLE_validate_mape\<close>, entered at row \<open>i\<close> with the total so far.\<close>

function mape_loop ::
  "'f float_ops \<Rightarrow> 'f heap \<Rightarrow> triSLE_t \<Rightarrow> triSLE_t \<Rightarrow> nat \<Rightarrow> nat \<Rightarrow> 'f \<Rightarrow> 'f option" where
  "mape_loop ops h result_system initial_system n i total_absolute_percentage_error =
     (if i < n then
        (case residual ops h result_system initial_system n i of
           None \<Rightarrow> None
         | Some result \<Rightarrow>
             (case rd h (sle_d initial_system) i of
                None \<Rightarrow> None
              | Some expected \<Rightarrow>
                  mape_loop ops h result_system initial_system n (Suc i)
                    (if \<not> f_eq ops expected (f_zero ops) then
                       (let absolute_percentage_error =
                              f_mul ops
                                (f_abs ops (f_div ops (f_sub ops result expected) expected))
                                (f_hundred ops)
                        in f_add ops total_absolute_percentage_error
                             absolute_percentage_error)
                     else if f_eq ops expected (f_zero ops)
                             \<and> \<not> f_eq ops result (f_zero ops)
                     then f_add ops total_absolute_percentage_error (f_one ops)
                     else total_absolute_percentage_error)))
      else Some total_absolute_percentage_error)"
  by pat_completeness auto
termination
  by (relation "measure (\<lambda>(ops, h, rs, is, n, i, m). n - i)") auto

declare mape_loop.simps [simp del]

definition triSLE_validate_mape ::
  "'f float_ops \<Rightarrow> 'f heap \<Rightarrow> triSLE_t option \<Rightarrow> triSLE_t option \<Rightarrow> 'f option" where
  "triSLE_validate_mape ops h result_system initial_system =
     (case (result_system, initial_system) of
        (Some rs, Some is) \<Rightarrow>
          Option.bind (deref_diag h (sle_b is)) (\<lambda>db.
          Option.bind (mape_loop ops h rs is (diag_n db) 0 (f_zero ops)) (\<lambda>total.
            Some (f_div ops total (f_of_size ops (diag_n db)))))
      | _ \<Rightarrow> Some (nan_literal ops))"

section \<open>Well-formed systems\<close>

text \<open>
  What \<^verbatim>\<open>triSLE_create(&s, n)\<close> establishes: five distinct diagonals of length \<open>n\<close>, each with
  a block of \<open>n\<close> cells of its own.
\<close>

definition diag_ok :: "'f heap \<Rightarrow> addr option \<Rightarrow> nat \<Rightarrow> bool" where
  "diag_ok h dp n =
     (case deref_diag h dp of None \<Rightarrow> False
      | Some dg \<Rightarrow> diag_n dg = n \<and>
          (case deref_buf h (diag_data dg) of None \<Rightarrow> False | Some xs \<Rightarrow> length xs = n))"

definition sle_ok :: "'f heap \<Rightarrow> triSLE_t \<Rightarrow> nat \<Rightarrow> bool" where
  "sle_ok h s n =
     (diag_ok h (sle_a s) n \<and> diag_ok h (sle_b s) n \<and> diag_ok h (sle_c s) n \<and>
      diag_ok h (sle_d s) n \<and> diag_ok h (sle_x s) n \<and>
      distinct [sle_a s, sle_b s, sle_c s, sle_d s, sle_x s] \<and>
      distinct [data_ptr h (sle_a s), data_ptr h (sle_b s), data_ptr h (sle_c s),
                data_ptr h (sle_d s), data_ptr h (sle_x s)])"

text \<open>The blocks of a system, as a list of addresses.\<close>

definition sle_blocks :: "'f heap \<Rightarrow> triSLE_t \<Rightarrow> addr option list" where
  "sle_blocks h s = [data_ptr h (sle_a s), data_ptr h (sle_b s), data_ptr h (sle_c s),
                     data_ptr h (sle_d s), data_ptr h (sle_x s)]"

text \<open>
  An allocator answers with the address of a block that is not live, and never with the
  same address twice while the first block is live.
\<close>

definition malloc_fresh :: "'f heap \<Rightarrow> 'f malloc_result \<Rightarrow> bool" where
  "malloc_fresh h r = (case r of None \<Rightarrow> True | Some (p, g) \<Rightarrow> bufs h p = None)"

definition env_fresh :: "'f heap \<Rightarrow> 'f pcr_env \<Rightarrow> bool" where
  "env_fresh h env =
     (malloc_fresh h (env_a env) \<and> malloc_fresh h (env_b env) \<and>
      malloc_fresh h (env_c env) \<and> malloc_fresh h (env_d env) \<and>
      distinct (List.map_filter (map_option fst) [env_a env, env_b env, env_c env, env_d env]))"

definition env_succeeds :: "'f pcr_env \<Rightarrow> bool" where
  "env_succeeds env =
     (env_a env \<noteq> None \<and> env_b env \<noteq> None \<and> env_c env \<noteq> None \<and> env_d env \<noteq> None)"

section \<open>The reduction on lists\<close>

type_synonym 'f coeffs = "'f list \<times> 'f list \<times> 'f list \<times> 'f list"

text \<open>One level of \<^verbatim>\<open>update_step\<close> on the contents of the four blocks.\<close>

definition reduce_level :: "'f float_ops \<Rightarrow> nat \<Rightarrow> nat \<Rightarrow> 'f coeffs \<Rightarrow> 'f coeffs" where
  "reduce_level ops n level V =
     (case V of (A, B, C, D) \<Rightarrow>
        (let rows = map (update_row ops n (2 ^ level) A B C D) [0..<n]
         in (map (\<lambda>r. fst r) rows, map (\<lambda>r. fst (snd r)) rows,
             map (\<lambda>r. fst (snd (snd r))) rows, map (\<lambda>r. snd (snd (snd r))) rows)))"

text \<open>The levels \<open>level, level + 1, \<dots>, level + k - 1\<close> in turn.\<close>

primrec reduce_from :: "'f float_ops \<Rightarrow> nat \<Rightarrow> nat \<Rightarrow> nat \<Rightarrow> 'f coeffs \<Rightarrow> 'f coeffs" where
  "reduce_from ops n 0 level V = V"
| "reduce_from ops n (Suc k) level V = reduce_from ops n k (Suc level) (reduce_level ops n level V)"

definition solve_list :: "'f float_ops \<Rightarrow> nat \<Rightarrow> 'f list \<Rightarrow> 'f list \<Rightarrow> 'f list" where
  "solve_list ops n D B = map (\<lambda>i. f_div ops (D ! i) (B ! i)) [0..<n]"

section \<open>The layout of the heap during \<^verbatim>\<open>pcr\<close>\<close>

text \<open>
  The state of the level loop: the four diagonals of the system point to the blocks \<open>P\<close>,
  which hold the coefficients \<open>V\<close>; the local pointers hold the blocks \<open>T\<close>; all eight
  blocks are distinct and have \<open>n\<close> cells; everything else is as in the heap \<open>h0\<close>.
\<close>

definition slot :: "'f heap \<Rightarrow> 'f heap \<Rightarrow> addr option \<Rightarrow> addr \<Rightarrow> bool" where
  "slot h0 h dp p =
     (case dp of None \<Rightarrow> False
      | Some q \<Rightarrow> (case diags h0 q of None \<Rightarrow> False
          | Some dg \<Rightarrow> diags h q = Some (dg\<lparr>diag_data := Some p\<rparr>)))"

definition blk :: "'f heap \<Rightarrow> addr \<Rightarrow> nat \<Rightarrow> bool" where
  "blk h p n = (case bufs h p of None \<Rightarrow> False | Some xs \<Rightarrow> length xs = n)"

definition lay ::
  "'f heap \<Rightarrow> 'f heap \<Rightarrow> triSLE_t \<Rightarrow> nat \<Rightarrow> addr \<times> addr \<times> addr \<times> addr
     \<Rightarrow> addr \<times> addr \<times> addr \<times> addr \<Rightarrow> 'f coeffs \<Rightarrow> bool" where
  "lay h0 h s n P T V =
     (case P of (pa, pb, pc, pd) \<Rightarrow> case T of (ta, tb, tc, td) \<Rightarrow> case V of (A, B, C, D) \<Rightarrow>
        distinct [pa, pb, pc, pd, ta, tb, tc, td] \<and>
        distinct [sle_a s, sle_b s, sle_c s, sle_d s] \<and>
        slot h0 h (sle_a s) pa \<and> slot h0 h (sle_b s) pb \<and>
        slot h0 h (sle_c s) pc \<and> slot h0 h (sle_d s) pd \<and>
        map_option diag_n (deref_diag h0 (sle_b s)) = Some n \<and>
        bufs h pa = Some A \<and> bufs h pb = Some B \<and> bufs h pc = Some C \<and> bufs h pd = Some D \<and>
        length A = n \<and> length B = n \<and> length C = n \<and> length D = n \<and>
        blk h ta n \<and> blk h tb n \<and> blk h tc n \<and> blk h td n \<and>
        (\<forall>q. Some q \<notin> set [sle_a s, sle_b s, sle_c s, sle_d s] \<longrightarrow> diags h q = diags h0 q) \<and>
        (\<forall>p. p \<notin> set [pa, pb, pc, pd, ta, tb, tc, td] \<longrightarrow> bufs h p = bufs h0 p))"

text \<open>Four addresses as the values of the four local pointers of \<^verbatim>\<open>pcr\<close>.\<close>

definition somes :: "addr \<times> addr \<times> addr \<times> addr \<Rightarrow> tmp_ptrs" where
  "somes P = (case P of (a, b, c, d) \<Rightarrow> (Some a, Some b, Some c, Some d))"

text \<open>The cells of \<open>a\<close>, \<open>b\<close>, \<open>c\<close> and \<open>d\<close> of a system.\<close>

definition sle_coeffs :: "'f heap \<Rightarrow> triSLE_t \<Rightarrow> 'f coeffs" where
  "sle_coeffs h s = (the (buf_of h (sle_a s)), the (buf_of h (sle_b s)),
                     the (buf_of h (sle_c s)), the (buf_of h (sle_d s)))"

text \<open>
  The heap that a successful \<^verbatim>\<open>pcr\<close> leaves: the diagonals and every block other than
  the five of the system are as before; the blocks of \<open>a\<close>, \<open>b\<close>, \<open>c\<close>, \<open>d\<close> hold the
  coefficients after all levels, and the block of \<open>x\<close> holds their quotients \<open>d[i] / b[i]\<close>.
\<close>

definition pcr_result :: "'f float_ops \<Rightarrow> 'f heap \<Rightarrow> triSLE_t \<Rightarrow> nat \<Rightarrow> 'f heap" where
  "pcr_result ops h s n =
     (case reduce_from ops n (total_levels_of n) 0 (sle_coeffs h s) of
        (A', B', C', D') \<Rightarrow>
          h\<lparr>bufs := (bufs h)
             (the (data_ptr h (sle_a s)) \<mapsto> A',
              the (data_ptr h (sle_b s)) \<mapsto> B',
              the (data_ptr h (sle_c s)) \<mapsto> C',
              the (data_ptr h (sle_d s)) \<mapsto> D',
              the (data_ptr h (sle_x s)) \<mapsto> solve_list ops n D' B')\<rparr>)"

section \<open>A concrete system\<close>

text \<open>
  A system as \<^verbatim>\<open>triSLE_create\<close> lays it out: the diagonals at the addresses 0 to 4, their
  blocks at 10 to 14. The allocator of \<open>ex_env\<close> answers with four new blocks whose cells
  hold NaN.
\<close>

definition ex_sle :: triSLE_t where
  "ex_sle = \<lparr>sle_a = Some 0, sle_b = Some 1, sle_c = Some 2, sle_d = Some 3, sle_x = Some 4\<rparr>"

definition ex_heap ::
  "nat \<Rightarrow> 'f list \<Rightarrow> 'f list \<Rightarrow> 'f list \<Rightarrow> 'f list \<Rightarrow> 'f list \<Rightarrow> 'f heap" where
  "ex_heap n A B C D X =
     \<lparr>diags = [0 \<mapsto> \<lparr>diag_n = n, diag_data = Some 10\<rparr>, 1 \<mapsto> \<lparr>diag_n = n, diag_data = Some 11\<rparr>,
               2 \<mapsto> \<lparr>diag_n = n, diag_data = Some 12\<rparr>, 3 \<mapsto> \<lparr>diag_n = n, diag_data = Some 13\<rparr>,
               4 \<mapsto> \<lparr>diag_n = n, diag_data = Some 14\<rparr>],
      bufs = [10 \<mapsto> A, 11 \<mapsto> B, 12 \<mapsto> C, 13 \<mapsto> D, 14 \<mapsto> X]\<rparr>"

definition ex_env :: "xfloat pcr_env" where
  "ex_env = \<lparr>env_a = Some (20, \<lambda>i. NaN), env_b = Some (21, \<lambda>i. NaN),
             env_c = Some (22, \<lambda>i. NaN), env_d = Some (23, \<lambda>i. NaN)\<rparr>"

section \<open>One level, in the words of the specification\<close>

text \<open>
  The row \<open>j\<close> exists when \<open>j\<close> is in \<open>[0, n)\<close>. A neighbour that does not exist counts as a
  row with main diagonal 1 and with 0 for \<open>a\<close>, \<open>c\<close> and \<open>d\<close>; a divisor that is zero is
  replaced by \<^verbatim>\<open>EPSILON\<close>. \<open>S\<close> is the stride.
\<close>

definition in_rows :: "int \<Rightarrow> nat \<Rightarrow> bool" where
  "in_rows j n = (0 \<le> j \<and> j < int n)"

definition guarded :: "'f float_ops \<Rightarrow> 'f \<Rightarrow> 'f" where
  "guarded ops v = (if f_eq ops v (f_zero ops) then f_eps ops else v)"

definition nb_main :: "'f float_ops \<Rightarrow> nat \<Rightarrow> 'f list \<Rightarrow> int \<Rightarrow> 'f" where
  "nb_main ops n b j = (if in_rows j n then b ! nat j else f_one ops)"

definition nb_val :: "'f float_ops \<Rightarrow> nat \<Rightarrow> 'f list \<Rightarrow> int \<Rightarrow> 'f" where
  "nb_val ops n v j = (if in_rows j n then v ! nat j else f_zero ops)"

definition spec_alpha :: "'f float_ops \<Rightarrow> nat \<Rightarrow> nat \<Rightarrow> 'f list \<Rightarrow> 'f list \<Rightarrow> nat \<Rightarrow> 'f" where
  "spec_alpha ops n S a b i =
     f_div ops (f_neg ops (a ! i)) (guarded ops (nb_main ops n b (int i - int S)))"

definition spec_gamma :: "'f float_ops \<Rightarrow> nat \<Rightarrow> nat \<Rightarrow> 'f list \<Rightarrow> 'f list \<Rightarrow> nat \<Rightarrow> 'f" where
  "spec_gamma ops n S c b i =
     f_div ops (f_neg ops (c ! i)) (guarded ops (nb_main ops n b (int i + int S)))"

definition spec_a' :: "'f float_ops \<Rightarrow> nat \<Rightarrow> nat \<Rightarrow> 'f coeffs \<Rightarrow> nat \<Rightarrow> 'f" where
  "spec_a' ops n S V i = (case V of (a, b, c, d) \<Rightarrow>
     f_mul ops (spec_alpha ops n S a b i) (nb_val ops n a (int i - int S)))"

definition spec_c' :: "'f float_ops \<Rightarrow> nat \<Rightarrow> nat \<Rightarrow> 'f coeffs \<Rightarrow> nat \<Rightarrow> 'f" where
  "spec_c' ops n S V i = (case V of (a, b, c, d) \<Rightarrow>
     f_mul ops (spec_gamma ops n S c b i) (nb_val ops n c (int i + int S)))"

definition spec_b' :: "'f float_ops \<Rightarrow> nat \<Rightarrow> nat \<Rightarrow> 'f coeffs \<Rightarrow> nat \<Rightarrow> 'f" where
  "spec_b' ops n S V i = (case V of (a, b, c, d) \<Rightarrow>
     f_add ops
       (f_add ops (b ! i) (f_mul ops (spec_alpha ops n S a b i) (nb_val ops n c (int i - int S))))
       (f_mul ops (spec_gamma ops n S c b i) (nb_val ops n a (int i + int S))))"

definition spec_d' :: "'f float_ops \<Rightarrow> nat \<Rightarrow> nat \<Rightarrow> 'f coeffs \<Rightarrow> nat \<Rightarrow> 'f" where
  "spec_d' ops n S V i = (case V of (a, b, c, d) \<Rightarrow>
     f_add ops
       (f_add ops (d ! i) (f_mul ops (spec_alpha ops n S a b i) (nb_val ops n d (int i - int S))))
       (f_mul ops (spec_gamma ops n S c b i) (nb_val ops n d (int i + int S))))"

text \<open>The concrete system of \<open>ex_heap\<close> with four more blocks, at the addresses 20 to 23.\<close>

definition ex_heap_tmp ::
  "nat \<Rightarrow> 'f list \<Rightarrow> 'f list \<Rightarrow> 'f list \<Rightarrow> 'f list \<Rightarrow> 'f list
     \<Rightarrow> 'f list \<Rightarrow> 'f list \<Rightarrow> 'f list \<Rightarrow> 'f list \<Rightarrow> 'f heap" where
  "ex_heap_tmp n A B C D X TA TB TC TD =
     (ex_heap n A B C D X)\<lparr>bufs := (bufs (ex_heap n A B C D X))
        (20 \<mapsto> TA, 21 \<mapsto> TB, 22 \<mapsto> TC, 23 \<mapsto> TD)\<rparr>"

text \<open>
  Two systems in one heap: \<open>ex_sle\<close> as before, of size \<open>n\<close>, and \<open>ex_src\<close> of size \<open>m\<close>, with its
  diagonals at the addresses 5 to 9 and its blocks at 15 to 19.
\<close>

definition ex_src :: triSLE_t where
  "ex_src = \<lparr>sle_a = Some 5, sle_b = Some 6, sle_c = Some 7, sle_d = Some 8, sle_x = Some 9\<rparr>"

definition ex_heap2 ::
  "nat \<Rightarrow> 'f list \<Rightarrow> 'f list \<Rightarrow> 'f list \<Rightarrow> 'f list \<Rightarrow> 'f list \<Rightarrow>
   nat \<Rightarrow> 'f list \<Rightarrow> 'f list \<Rightarrow> 'f list \<Rightarrow> 'f list \<Rightarrow> 'f list \<Rightarrow> 'f heap" where
  "ex_heap2 n A B C D X m E F G H Y =
     \<lparr>diags = [0 \<mapsto> \<lparr>diag_n = n, diag_data = Some 10\<rparr>, 1 \<mapsto> \<lparr>diag_n = n, diag_data = Some 11\<rparr>,
               2 \<mapsto> \<lparr>diag_n = n, diag_data = Some 12\<rparr>, 3 \<mapsto> \<lparr>diag_n = n, diag_data = Some 13\<rparr>,
               4 \<mapsto> \<lparr>diag_n = n, diag_data = Some 14\<rparr>,
               5 \<mapsto> \<lparr>diag_n = m, diag_data = Some 15\<rparr>, 6 \<mapsto> \<lparr>diag_n = m, diag_data = Some 16\<rparr>,
               7 \<mapsto> \<lparr>diag_n = m, diag_data = Some 17\<rparr>, 8 \<mapsto> \<lparr>diag_n = m, diag_data = Some 18\<rparr>,
               9 \<mapsto> \<lparr>diag_n = m, diag_data = Some 19\<rparr>],
      bufs = [10 \<mapsto> A, 11 \<mapsto> B, 12 \<mapsto> C, 13 \<mapsto> D, 14 \<mapsto> X,
              15 \<mapsto> E, 16 \<mapsto> F, 17 \<mapsto> G, 18 \<mapsto> H, 19 \<mapsto> Y]\<rparr>"

section \<open>The validators, in the words of the specification\<close>

text \<open>
  The residual of the row \<open>i\<close>, from the original coefficients \<open>a0\<close>, \<open>b0\<close>, \<open>c0\<close> and the
  solution \<open>x\<close>: \<open>b0[i] x[i]\<close>, plus \<open>a0[i] x[i - 1]\<close> if \<open>i > 0\<close>, plus \<open>c0[i] x[i + 1]\<close> if
  \<open>i < n - 1\<close>.
\<close>

definition spec_residual ::
  "'f float_ops \<Rightarrow> 'f list \<Rightarrow> 'f list \<Rightarrow> 'f list \<Rightarrow> 'f list \<Rightarrow> nat \<Rightarrow> nat \<Rightarrow> 'f" where
  "spec_residual ops a0 b0 c0 x n i =
     (let r = f_mul ops (b0 ! i) (x ! i);
          r = (if i > 0 then f_add ops r (f_mul ops (a0 ! i) (x ! (i - 1))) else r)
      in (if i < n - 1 then f_add ops r (f_mul ops (c0 ! i) (x ! (i + 1))) else r))"

text \<open>\<open>|r - d| / |d|\<close>.\<close>

definition spec_rel_error :: "'f float_ops \<Rightarrow> 'f \<Rightarrow> 'f \<Rightarrow> 'f" where
  "spec_rel_error ops r d = f_div ops (f_abs ops (f_sub ops r d)) (f_abs ops d)"

text \<open>The greater of two floats as \<^verbatim>\<open>>\<close> orders them; the first one if they are not ordered.\<close>

definition float_max :: "'f float_ops \<Rightarrow> 'f \<Rightarrow> 'f \<Rightarrow> 'f" where
  "float_max ops m e = (if f_gt ops e m then e else m)"

text \<open>
  The first residual that is NaN if there is one; otherwise the maximum, from 0.0 on, of
  the relative errors of the rows whose \<open>d0\<close> is not zero.
\<close>

definition spec_maxrel ::
  "'f float_ops \<Rightarrow> 'f coeffs \<Rightarrow> 'f list \<Rightarrow> nat \<Rightarrow> 'f" where
  "spec_maxrel ops V x n =
     (case V of (a0, b0, c0, d0) \<Rightarrow>
        (case find (is_nan ops) (map (spec_residual ops a0 b0 c0 x n) [0..<n]) of
           Some r \<Rightarrow> r
         | None \<Rightarrow>
             foldl (float_max ops) (f_zero ops)
               (map (\<lambda>i. spec_rel_error ops (spec_residual ops a0 b0 c0 x n i) (d0 ! i))
                  (filter (\<lambda>i. \<not> f_eq ops (d0 ! i) (f_zero ops)) [0..<n]))))"

text \<open>
  What the row \<open>i\<close> adds to the total: a hundred times its relative error if \<open>d0[i]\<close> is not
  zero, otherwise 1.0 if its residual is not zero, otherwise nothing.
\<close>

definition spec_mape_step ::
  "'f float_ops \<Rightarrow> 'f coeffs \<Rightarrow> 'f list \<Rightarrow> nat \<Rightarrow> 'f \<Rightarrow> nat \<Rightarrow> 'f" where
  "spec_mape_step ops V x n acc i =
     (case V of (a0, b0, c0, d0) \<Rightarrow>
        (let r = spec_residual ops a0 b0 c0 x n i in
         if \<not> f_eq ops (d0 ! i) (f_zero ops)
         then f_add ops acc (f_mul ops (spec_rel_error ops r (d0 ! i)) (f_hundred ops))
         else if \<not> f_eq ops r (f_zero ops) then f_add ops acc (f_one ops)
         else acc))"

definition spec_mape :: "'f float_ops \<Rightarrow> 'f coeffs \<Rightarrow> 'f list \<Rightarrow> nat \<Rightarrow> 'f" where
  "spec_mape ops V x n =
     f_div ops (foldl (spec_mape_step ops V x n) (f_zero ops) [0..<n]) (f_of_size ops n)"

text \<open>
  The code takes the absolute value of the quotient, the specification the quotient of
  the absolute values; the two agree in an arithmetic whose division is symmetric in the
  signs, as IEEE 754 division is.
\<close>

definition abs_div_law :: "'f float_ops \<Rightarrow> bool" where
  "abs_div_law ops = (\<forall>u v. f_abs ops (f_div ops u v) = f_div ops (f_abs ops u) (f_abs ops v))"

section \<open>Lemmas\<close>

lemma slotD:
  "slot h0 h dp p \<Longrightarrow> \<exists>q dg. dp = Some q \<and> diags h0 q = Some dg \<and> diags h q = Some (dg\<lparr>diag_data := Some p\<rparr>)"
  by (auto simp: slot_def split: option.splits)

lemma blkD: "blk h p n \<Longrightarrow> \<exists>xs. bufs h p = Some xs \<and> length xs = n"
  by (auto simp: blk_def split: option.splits)

lemma update_step_lay:
  assumes L: "lay h0 h s n (pa, pb, pc, pd) (ta, tb, tc, td) (A, B, C, D)"
    and n: "0 < n" and lv: "level < 31" "int n - 1 + 2 ^ level \<le> INT_MAX"
  shows "update_step ops h s (Some ta) (Some tb) (Some tc) (Some td) level =
     Some (h\<lparr>bufs := (bufs h)
        (ta \<mapsto> fst (reduce_level ops n level (A, B, C, D)),
         tb \<mapsto> fst (snd (reduce_level ops n level (A, B, C, D))),
         tc \<mapsto> fst (snd (snd (reduce_level ops n level (A, B, C, D)))),
         td \<mapsto> snd (snd (snd (reduce_level ops n level (A, B, C, D)))))\<rparr>)"
proof -
  from L obtain qa dga where a: "sle_a s = Some qa" "diags h0 qa = Some dga"
      "diags h qa = Some (dga\<lparr>diag_data := Some pa\<rparr>)"
    unfolding lay_def by (auto dest!: slotD)
  from L obtain qb dgb where b: "sle_b s = Some qb" "diags h0 qb = Some dgb"
      "diags h qb = Some (dgb\<lparr>diag_data := Some pb\<rparr>)"
    unfolding lay_def by (auto dest!: slotD)
  from L obtain qc dgc where c: "sle_c s = Some qc" "diags h0 qc = Some dgc"
      "diags h qc = Some (dgc\<lparr>diag_data := Some pc\<rparr>)"
    unfolding lay_def by (auto dest!: slotD)
  from L obtain qd dgd where d: "sle_d s = Some qd" "diags h0 qd = Some dgd"
      "diags h qd = Some (dgd\<lparr>diag_data := Some pd\<rparr>)"
    unfolding lay_def by (auto dest!: slotD)
  from L b have nb: "diag_n dgb = n"
    unfolding lay_def by (auto simp: deref_diag_def)
  from L have bf: "bufs h pa = Some A" "bufs h pb = Some B" "bufs h pc = Some C" "bufs h pd = Some D"
     "length A = n" "length B = n" "length C = n" "length D = n"
    unfolding lay_def by auto
  from L obtain oa ob oc od where t: "bufs h ta = Some oa" "bufs h tb = Some ob"
     "bufs h tc = Some oc" "bufs h td = Some od" "length oa = n" "length ob = n" "length oc = n" "length od = n"
    unfolding lay_def by (auto dest!: blkD)
  from L have dis: "distinct [pa, pb, pc, pd, ta, tb, tc, td]"
    unfolding lay_def by auto
  show ?thesis
    using n lv dis
    by (auto simp add: update_step_def deref_diag_def deref_buf_def a b c d nb bf t reduce_level_def
        Let_def)
qed

lemma level_body_lay:
  assumes L: "lay h0 h s n (pa, pb, pc, pd) (ta, tb, tc, td) (A, B, C, D)"
    and n: "0 < n" and lv: "level < 31" "int n - 1 + 2 ^ level \<le> INT_MAX"
  shows "\<exists>h'. level_body ops s level (h, somes (ta, tb, tc, td)) = Some (h', somes (pa, pb, pc, pd))
           \<and> lay h0 h' s n (ta, tb, tc, td) (pa, pb, pc, pd) (reduce_level ops n level (A, B, C, D))"
proof -
  from L obtain qa dga where a: "sle_a s = Some qa" "diags h0 qa = Some dga"
      "diags h qa = Some (dga\<lparr>diag_data := Some pa\<rparr>)"
    unfolding lay_def by (auto dest!: slotD)
  from L obtain qb dgb where b: "sle_b s = Some qb" "diags h0 qb = Some dgb"
      "diags h qb = Some (dgb\<lparr>diag_data := Some pb\<rparr>)"
    unfolding lay_def by (auto dest!: slotD)
  from L obtain qc dgc where c: "sle_c s = Some qc" "diags h0 qc = Some dgc"
      "diags h qc = Some (dgc\<lparr>diag_data := Some pc\<rparr>)"
    unfolding lay_def by (auto dest!: slotD)
  from L obtain qd dgd where d: "sle_d s = Some qd" "diags h0 qd = Some dgd"
      "diags h qd = Some (dgd\<lparr>diag_data := Some pd\<rparr>)"
    unfolding lay_def by (auto dest!: slotD)
  from L a b c d have qdis: "distinct [qa, qb, qc, qd]"
    unfolding lay_def by auto
  from L have dis: "distinct [pa, pb, pc, pd, ta, tb, tc, td]"
    unfolding lay_def by auto
  from L have bf: "bufs h pa = Some A" "bufs h pb = Some B" "bufs h pc = Some C" "bufs h pd = Some D"
     "length A = n" "length B = n" "length C = n" "length D = n"
    unfolding lay_def by auto
  from L have nb: "map_option diag_n (deref_diag h0 (sle_b s)) = Some n"
    unfolding lay_def by auto
  from L have fr: "\<forall>q. Some q \<notin> set [sle_a s, sle_b s, sle_c s, sle_d s] \<longrightarrow> diags h q = diags h0 q"
    "\<forall>p. p \<notin> set [pa, pb, pc, pd, ta, tb, tc, td] \<longrightarrow> bufs h p = bufs h0 p"
    unfolding lay_def by auto
  let ?V = "reduce_level ops n level (A, B, C, D)"
  let ?h1 = "h\<lparr>bufs := (bufs h)(ta \<mapsto> fst ?V, tb \<mapsto> fst (snd ?V), tc \<mapsto> fst (snd (snd ?V)),
                  td \<mapsto> snd (snd (snd ?V)))\<rparr>"
  let ?h2 = "?h1\<lparr>diags := (diags h)(qa \<mapsto> dga\<lparr>diag_data := Some ta\<rparr>,
                 qb \<mapsto> dgb\<lparr>diag_data := Some tb\<rparr>, qc \<mapsto> dgc\<lparr>diag_data := Some tc\<rparr>,
                 qd \<mapsto> dgd\<lparr>diag_data := Some td\<rparr>)\<rparr>"
  have us: "update_step ops h s (Some ta) (Some tb) (Some tc) (Some td) level = Some ?h1"
    by (rule update_step_lay [OF L n lv])
  have sw: "swap_buffers ?h1 s (Some ta, Some tb, Some tc, Some td) = Some (?h2, (Some pa, Some pb, Some pc, Some pd))"
    using qdis
    by (simp add: swap_buffers_def swap_data_def set_data_def deref_diag_def a b c d)
  have lb: "level_body ops s level (h, somes (ta, tb, tc, td)) = Some (?h2, somes (pa, pb, pc, pd))"
    by (simp add: level_body_def somes_def us sw)
  have len: "length (fst ?V) = n" "length (fst (snd ?V)) = n" "length (fst (snd (snd ?V))) = n"
      "length (snd (snd (snd ?V))) = n"
    by (simp_all add: reduce_level_def Let_def)
  have "lay h0 ?h2 s n (ta, tb, tc, td) (pa, pb, pc, pd) ?V"
    unfolding lay_def
    using dis qdis fr nb len
    by (auto simp: slot_def blk_def a b c d bf split: prod.splits)
  with lb show ?thesis by blast
qed

lemma pcr_levels_lay:
  assumes n: "0 < n" and tot: "nl \<le> 31" "int n - 1 + 2 ^ (nl - 1) \<le> INT_MAX"
  shows "level + k = nl \<Longrightarrow> lay h0 h s n P T V \<Longrightarrow>
     \<exists>h'. pcr_levels ops s nl level (h, somes T) = Some (h', somes (if even k then T else P)) \<and>
          lay h0 h' s n (if even k then P else T) (if even k then T else P)
            (reduce_from ops n k level V)"
proof (induction k arbitrary: level h P T V)
  case 0
  then show ?case by (simp add: pcr_levels.simps)
next
  case (Suc k)
  obtain pa pb pc pd where P: "P = (pa, pb, pc, pd)" by (cases P) auto
  obtain ta tb tc td where T: "T = (ta, tb, tc, td)" by (cases T) auto
  obtain A B C D where V: "V = (A, B, C, D)" by (cases V) auto
  from Suc.prems have lt: "level < nl" by simp
  with tot have l31: "level < 31" by simp
  have "(2::int) ^ level \<le> 2 ^ (nl - 1)"
    using lt by (intro power_increasing) auto
  with tot have ov: "int n - 1 + 2 ^ level \<le> INT_MAX" by linarith
  from level_body_lay [OF Suc.prems(2) [unfolded P T V] n l31 ov, of ops]
  obtain h1 where lb: "level_body ops s level (h, somes T) = Some (h1, somes P)"
    and L1: "lay h0 h1 s n T P (reduce_level ops n level V)"
    unfolding P T V by blast
  from Suc.prems have "Suc level + k = nl" by simp
  from Suc.IH [OF this L1]
  obtain h' where r: "pcr_levels ops s nl (Suc level) (h1, somes P) =
        Some (h', somes (if even k then P else T))"
    and L': "lay h0 h' s n (if even k then T else P) (if even k then P else T)
        (reduce_from ops n k (Suc level) (reduce_level ops n level V))"
    by blast
  have "pcr_levels ops s nl level (h, somes T) = Some (h', somes (if even k then P else T))"
    using lt lb r by (subst pcr_levels.simps) simp
  with L' show ?case by auto
qed

lemma bit_length_bounds: "n < 2 ^ bit_length n \<and> (0 < n \<longrightarrow> 2 ^ (bit_length n - 1) \<le> n)"
proof (induction n rule: bit_length.induct)
  case (1 n)
  show ?case
  proof (cases "n = 0")
    case True
    then show ?thesis by (simp add: bit_length.simps)
  next
    case False
    with 1 have IH: "n div 2 < 2 ^ bit_length (n div 2)"
      "0 < n div 2 \<longrightarrow> 2 ^ (bit_length (n div 2) - 1) \<le> n div 2" by auto
    have bl: "bit_length n = Suc (bit_length (n div 2))"
      using False by (subst bit_length.simps) simp
    have up: "n < 2 ^ bit_length n" using IH(1) bl by simp
    have lo: "2 ^ (bit_length n - 1) \<le> n"
    proof (cases "n div 2 = 0")
      case True
      with False have "n = 1" by presburger
      then show ?thesis by (simp add: bl bit_length.simps)
    next
      case F2: False
      then have "bit_length (n div 2) \<noteq> 0" by (subst bit_length.simps) simp
      then obtain j where j: "bit_length (n div 2) = Suc j" by (cases "bit_length (n div 2)") auto
      from IH(2) F2 j have "2 ^ j \<le> n div 2" by simp
      then have "2 * 2 ^ j \<le> n" by presburger
      then show ?thesis by (simp add: bl j)
    qed
    from up lo show ?thesis by simp
  qed
qed

lemma ceil_log2_le: "m \<le> 2 ^ k \<Longrightarrow> ceil_log2 m \<le> k"
proof (induction k arbitrary: m)
  case 0
  then show ?case by (subst ceil_log2.simps) simp
next
  case (Suc k)
  show ?case
  proof (cases "m \<le> 1")
    case True
    then show ?thesis by (subst ceil_log2.simps) simp
  next
    case False
    from Suc.prems have "(m + 1) div 2 \<le> 2 ^ k" by simp
    from Suc.IH [OF this] False show ?thesis by (subst ceil_log2.simps) simp
  qed
qed

lemma float_of_size_le_pow2:
  assumes "n \<le> 2 ^ j"
  shows "float_of_size n \<le> 2 ^ j"
proof (cases "bit_length n \<le> 24")
  case True
  with assms show ?thesis by (simp add: float_of_size_def)
next
  case False
  define k where "k = bit_length n"
  define sh where "sh = k - 24"
  from False have k: "k = sh + 24" "0 < sh" by (simp_all add: k_def sh_def)
  have up: "n < 2 ^ k" using bit_length_bounds [of n] by (simp add: k_def)
  have n0: "0 < n" using False by (cases "n = 0") (simp_all add: bit_length.simps)
  have lo: "2 ^ (k - 1) \<le> n" using bit_length_bounds [of n] n0 by (simp add: k_def)
  define q where "q = n div 2 ^ sh"
  define r where "r = n mod 2 ^ sh"
  have nqr: "n = q * 2 ^ sh + r" unfolding q_def r_def by (rule div_mult_mod_eq [symmetric])
  have q24: "q < 2 ^ 24"
    using up unfolding q_def k(1) by (simp add: less_mult_imp_div_less power_add)
  define q' where "q' = (if r > 2 ^ (sh - 1) \<or> (r = 2 ^ (sh - 1) \<and> odd q) then q + 1 else q)"
  have fv: "float_of_size n = q' * 2 ^ sh"
    using False by (simp add: float_of_size_def Let_def q'_def q_def r_def sh_def k_def)
  show ?thesis
  proof (cases "n = 2 ^ j")
    case True
    have "k - 1 \<le> j" using lo True by (simp add: power_le_imp_le_exp)
    moreover have "j < k" using up True by (simp add: power_less_imp_less_exp)
    ultimately have "sh \<le> j" using k by simp
    then have "(2::nat) ^ sh dvd 2 ^ j" by (simp add: le_imp_power_dvd)
    then have "r = 0" by (simp add: r_def True)
    then have "q' = q" using k(2) by (simp add: q'_def)
    then show ?thesis using fv nqr \<open>r = 0\<close> True by simp
  next
    case F: False
    with assms have "n < 2 ^ j" by simp
    with lo have "(2::nat) ^ (k - 1) < 2 ^ j" by linarith
    then have "k - 1 < j" by (rule power_less_imp_less_exp [rotated]) simp
    then have "k \<le> j" by simp
    have "q' \<le> 2 ^ 24" using q24 by (simp add: q'_def)
    then have "q' * 2 ^ sh \<le> 2 ^ 24 * 2 ^ sh" by (rule mult_le_mono1)
    also have "\<dots> = 2 ^ k" by (simp add: k(1) power_add mult.commute)
    also have "\<dots> \<le> 2 ^ j" using \<open>k \<le> j\<close> by (simp add: power_increasing)
    finally show ?thesis by (simp add: fv)
  qed
qed

lemma total_levels_of_le: "n \<le> 2 ^ j \<Longrightarrow> total_levels_of n \<le> j"
  unfolding total_levels_of_def by (intro ceil_log2_le float_of_size_le_pow2)

lemma diag_okD:
  "diag_ok h dp n \<Longrightarrow> \<exists>q dg p xs. dp = Some q \<and> diags h q = Some dg \<and> diag_n dg = n \<and>
      diag_data dg = Some p \<and> bufs h p = Some xs \<and> length xs = n"
  by (auto simp: diag_ok_def deref_diag_def deref_buf_def split: option.splits)

lemma diag_restore: "diag_data dg = Some p \<Longrightarrow> dg\<lparr>diag_data := Some p\<rparr> = dg"
  by (cases dg) simp

lemma lay_set_other:
  assumes "lay h0 h s n P T V" and "px \<notin> set [fst P, fst (snd P), fst (snd (snd P)), snd (snd (snd P)),
       fst T, fst (snd T), fst (snd (snd T)), snd (snd (snd T))]"
  shows "lay (h0\<lparr>bufs := (bufs h0)(px \<mapsto> v)\<rparr>) (h\<lparr>bufs := (bufs h)(px \<mapsto> v)\<rparr>) s n P T V"
  using assms unfolding lay_def
  by (auto simp: slot_def blk_def deref_diag_def split: prod.splits option.splits)

lemma reduce_level_length:
  "reduce_level ops n level V = (A', B', C', D') \<Longrightarrow>
     length A' = n \<and> length B' = n \<and> length C' = n \<and> length D' = n"
  by (auto simp: reduce_level_def Let_def split: prod.splits)

lemma copy_back_swap_lay:
  assumes L: "lay h0 h s n (ta, tb, tc, td) (pa, pb, pc, pd) (A, B, C, D)"
  shows "\<exists>h7 h'. copy_back h s (somes (pa, pb, pc, pd)) n = Some h7
           \<and> swap_buffers h7 s (somes (pa, pb, pc, pd)) = Some (h', somes (ta, tb, tc, td))
           \<and> lay h0 h' s n (pa, pb, pc, pd) (ta, tb, tc, td) (A, B, C, D)"
proof -
  from L obtain qa dga where a: "sle_a s = Some qa" "diags h0 qa = Some dga"
      "diags h qa = Some (dga\<lparr>diag_data := Some ta\<rparr>)"
    unfolding lay_def by (auto dest!: slotD)
  from L obtain qb dgb where b: "sle_b s = Some qb" "diags h0 qb = Some dgb"
      "diags h qb = Some (dgb\<lparr>diag_data := Some tb\<rparr>)"
    unfolding lay_def by (auto dest!: slotD)
  from L obtain qc dgc where c: "sle_c s = Some qc" "diags h0 qc = Some dgc"
      "diags h qc = Some (dgc\<lparr>diag_data := Some tc\<rparr>)"
    unfolding lay_def by (auto dest!: slotD)
  from L obtain qd dgd where d: "sle_d s = Some qd" "diags h0 qd = Some dgd"
      "diags h qd = Some (dgd\<lparr>diag_data := Some td\<rparr>)"
    unfolding lay_def by (auto dest!: slotD)
  from L a b c d have qdis: "distinct [qa, qb, qc, qd]"
    unfolding lay_def by auto
  from L have dis: "distinct [ta, tb, tc, td, pa, pb, pc, pd]"
    unfolding lay_def by auto
  from L have bf: "bufs h ta = Some A" "bufs h tb = Some B" "bufs h tc = Some C" "bufs h td = Some D"
     "length A = n" "length B = n" "length C = n" "length D = n"
    unfolding lay_def by auto
  from L obtain oa ob oc od where t: "bufs h pa = Some oa" "bufs h pb = Some ob"
     "bufs h pc = Some oc" "bufs h pd = Some od" "length oa = n" "length ob = n" "length oc = n" "length od = n"
    unfolding lay_def by (auto dest!: blkD)
  from L have nb: "map_option diag_n (deref_diag h0 (sle_b s)) = Some n"
    unfolding lay_def by auto
  from L have fr: "\<forall>q. Some q \<notin> set [sle_a s, sle_b s, sle_c s, sle_d s] \<longrightarrow> diags h q = diags h0 q"
    "\<forall>p. p \<notin> set [ta, tb, tc, td, pa, pb, pc, pd] \<longrightarrow> bufs h p = bufs h0 p"
    unfolding lay_def by auto
  let ?h7 = "h\<lparr>bufs := (bufs h)(pa \<mapsto> A, pb \<mapsto> B, pc \<mapsto> C, pd \<mapsto> D)\<rparr>"
  let ?h8 = "?h7\<lparr>diags := (diags h)(qa \<mapsto> dga\<lparr>diag_data := Some pa\<rparr>,
                 qb \<mapsto> dgb\<lparr>diag_data := Some pb\<rparr>, qc \<mapsto> dgc\<lparr>diag_data := Some pc\<rparr>,
                 qd \<mapsto> dgd\<lparr>diag_data := Some pd\<rparr>)\<rparr>"
  from dis have dis': "distinct [pa, pb, pc, pd, ta, tb, tc, td]" by auto
  have cb: "copy_back h s (somes (pa, pb, pc, pd)) n = Some ?h7"
    using dis dis'
    by (simp add: copy_back_def somes_def memcpy_def data_ptr_def deref_diag_def deref_buf_def
        a b c d bf t)
  have sw: "swap_buffers ?h7 s (somes (pa, pb, pc, pd)) = Some (?h8, somes (ta, tb, tc, td))"
    using qdis
    by (simp add: swap_buffers_def swap_data_def set_data_def deref_diag_def a b c d somes_def)
  have "lay h0 ?h8 s n (pa, pb, pc, pd) (ta, tb, tc, td) (A, B, C, D)"
    unfolding lay_def
    using dis qdis fr nb
    by (auto simp: slot_def blk_def a b c d bf split: prod.splits)
  with cb sw show ?thesis by blast
qed

lemma solve_rows_lay:
  assumes L: "lay h0 h s n (pa, pb, pc, pd) T (A, B, C, D)"
    and x: "sle_x s = Some qx" "Some qx \<notin> set [sle_a s, sle_b s, sle_c s, sle_d s]"
      "diags h0 qx = Some dgx" "diag_data dgx = Some px"
      "px \<notin> set [pa, pb, pc, pd, fst T, fst (snd T), fst (snd (snd T)), snd (snd (snd T))]"
      "bufs h0 px = Some X" "length X = n"
  shows "solve_rows ops h s n = Some (h\<lparr>bufs := (bufs h)(px \<mapsto> solve_list ops n D B)\<rparr>)"
proof -
  obtain ta tb tc td where T: "T = (ta, tb, tc, td)" by (cases T) auto
  from L obtain qb dgb where b: "sle_b s = Some qb" "diags h0 qb = Some dgb"
      "diags h qb = Some (dgb\<lparr>diag_data := Some pb\<rparr>)"
    unfolding lay_def by (auto dest!: slotD)
  from L obtain qd dgd where d: "sle_d s = Some qd" "diags h0 qd = Some dgd"
      "diags h qd = Some (dgd\<lparr>diag_data := Some pd\<rparr>)"
    unfolding lay_def by (auto dest!: slotD)
  from L have bf: "bufs h pb = Some B" "bufs h pd = Some D" "length B = n" "length D = n"
    unfolding lay_def T by auto
  from L x have dx: "diags h qx = Some dgx"
    unfolding lay_def T by auto
  from L x have bx: "bufs h px = Some X"
    unfolding lay_def T by auto
  show ?thesis
    by (simp add: solve_rows_def data_ptr_def buf_of_def deref_diag_def deref_buf_def
        b d bf dx bx x solve_list_def)
qed

lemma free_tmps_lay:
  assumes L: "lay h0 h s n P (ta, tb, tc, td) V"
  shows "free_tmps h (somes (ta, tb, tc, td)) =
     Some (h\<lparr>bufs := (bufs h)(ta := None, tb := None, tc := None, td := None)\<rparr>)"
proof -
  obtain pa pb pc pd where P: "P = (pa, pb, pc, pd)" by (cases P) auto
  obtain A B C D where V: "V = (A, B, C, D)" by (cases V) auto
  from L obtain oa ob oc od where t: "bufs h ta = Some oa" "bufs h tb = Some ob"
     "bufs h tc = Some oc" "bufs h td = Some od"
    unfolding lay_def P V by (auto dest!: blkD)
  from L have dis: "distinct [ta, tb, tc, td]"
    unfolding lay_def P V by auto
  show ?thesis using dis
    by (simp add: free_tmps_def somes_def free_buf_def t)
qed

lemma lay_final:
  assumes L: "lay h0 h s n (pa, pb, pc, pd) (ta, tb, tc, td) (A, B, C, D)"
    and orig: "data_ptr h0 (sle_a s) = Some pa" "data_ptr h0 (sle_b s) = Some pb"
      "data_ptr h0 (sle_c s) = Some pc" "data_ptr h0 (sle_d s) = Some pd"
    and fresh: "bufs h0 ta = None" "bufs h0 tb = None" "bufs h0 tc = None" "bufs h0 td = None"
  shows "h\<lparr>bufs := (bufs h)(ta := None, tb := None, tc := None, td := None)\<rparr> =
         h0\<lparr>bufs := (bufs h0)(pa \<mapsto> A, pb \<mapsto> B, pc \<mapsto> C, pd \<mapsto> D)\<rparr>"
proof -
  from L obtain qa dga where a: "sle_a s = Some qa" "diags h0 qa = Some dga"
      "diags h qa = Some (dga\<lparr>diag_data := Some pa\<rparr>)"
    unfolding lay_def by (auto dest!: slotD)
  from L obtain qb dgb where b: "sle_b s = Some qb" "diags h0 qb = Some dgb"
      "diags h qb = Some (dgb\<lparr>diag_data := Some pb\<rparr>)"
    unfolding lay_def by (auto dest!: slotD)
  from L obtain qc dgc where c: "sle_c s = Some qc" "diags h0 qc = Some dgc"
      "diags h qc = Some (dgc\<lparr>diag_data := Some pc\<rparr>)"
    unfolding lay_def by (auto dest!: slotD)
  from L obtain qd dgd where d: "sle_d s = Some qd" "diags h0 qd = Some dgd"
      "diags h qd = Some (dgd\<lparr>diag_data := Some pd\<rparr>)"
    unfolding lay_def by (auto dest!: slotD)
  from orig have r: "dga\<lparr>diag_data := Some pa\<rparr> = dga" "dgb\<lparr>diag_data := Some pb\<rparr> = dgb"
      "dgc\<lparr>diag_data := Some pc\<rparr> = dgc" "dgd\<lparr>diag_data := Some pd\<rparr> = dgd"
    by (simp_all add: data_ptr_def deref_diag_def a b c d diag_restore)
  from L have dis: "distinct [pa, pb, pc, pd, ta, tb, tc, td]"
    unfolding lay_def by auto
  from L have bf: "bufs h pa = Some A" "bufs h pb = Some B" "bufs h pc = Some C" "bufs h pd = Some D"
    unfolding lay_def by auto
  from L have fr: "\<And>q. Some q \<notin> set [sle_a s, sle_b s, sle_c s, sle_d s] \<Longrightarrow> diags h q = diags h0 q"
    "\<And>p. p \<notin> set [pa, pb, pc, pd, ta, tb, tc, td] \<Longrightarrow> bufs h p = bufs h0 p"
    unfolding lay_def by auto
  have dg: "diags h = diags h0"
  proof
    fix q
    show "diags h q = diags h0 q"
    proof (cases "Some q \<in> set [sle_a s, sle_b s, sle_c s, sle_d s]")
      case True
      then show ?thesis using a b c d r by auto
    next
      case False
      then show ?thesis by (rule fr(1))
    qed
  qed
  have bu: "(bufs h)(ta := None, tb := None, tc := None, td := None) =
        (bufs h0)(pa \<mapsto> A, pb \<mapsto> B, pc \<mapsto> C, pd \<mapsto> D)"
  proof
    fix p
    show "((bufs h)(ta := None, tb := None, tc := None, td := None)) p =
        ((bufs h0)(pa \<mapsto> A, pb \<mapsto> B, pc \<mapsto> C, pd \<mapsto> D)) p"
    proof (cases "p \<in> set [pa, pb, pc, pd, ta, tb, tc, td]")
      case True
      then show ?thesis using dis bf fresh by auto
    next
      case False
      with fr(2) [OF False] show ?thesis by simp
    qed
  qed
  show ?thesis
    by (rule heap.equality) (simp_all add: dg bu)
qed

lemma pcr_run:
  assumes ok: "sle_ok h s n" and n: "0 < n" "n \<le> 2 ^ 30"
    and env: "env_fresh h env" "env_succeeds env"
  shows "pcr ops env h (Some s) = Some (0, pcr_result ops h s n)"
proof -
  from ok have "diag_ok h (sle_a s) n" by (simp add: sle_ok_def)
  from diag_okD [OF this] obtain qa dga pa A where a: "sle_a s = Some qa" "diags h qa = Some dga"
    "diag_n dga = n" "diag_data dga = Some pa" "bufs h pa = Some A" "length A = n" by blast
  from ok have "diag_ok h (sle_b s) n" by (simp add: sle_ok_def)
  from diag_okD [OF this] obtain qb dgb pb B where b: "sle_b s = Some qb" "diags h qb = Some dgb"
    "diag_n dgb = n" "diag_data dgb = Some pb" "bufs h pb = Some B" "length B = n" by blast
  from ok have "diag_ok h (sle_c s) n" by (simp add: sle_ok_def)
  from diag_okD [OF this] obtain qc dgc pc C where c: "sle_c s = Some qc" "diags h qc = Some dgc"
    "diag_n dgc = n" "diag_data dgc = Some pc" "bufs h pc = Some C" "length C = n" by blast
  from ok have "diag_ok h (sle_d s) n" by (simp add: sle_ok_def)
  from diag_okD [OF this] obtain qd dgd pd D where d: "sle_d s = Some qd" "diags h qd = Some dgd"
    "diag_n dgd = n" "diag_data dgd = Some pd" "bufs h pd = Some D" "length D = n" by blast
  from ok have "diag_ok h (sle_x s) n" by (simp add: sle_ok_def)
  from diag_okD [OF this] obtain qx dgx px X where x: "sle_x s = Some qx" "diags h qx = Some dgx"
    "diag_n dgx = n" "diag_data dgx = Some px" "bufs h px = Some X" "length X = n" by blast
  have dp: "data_ptr h (sle_a s) = Some pa" "data_ptr h (sle_b s) = Some pb"
    "data_ptr h (sle_c s) = Some pc" "data_ptr h (sle_d s) = Some pd" "data_ptr h (sle_x s) = Some px"
    by (simp_all add: data_ptr_def deref_diag_def a b c d x)
  from ok have qdis: "distinct [qa, qb, qc, qd, qx]"
    by (simp add: sle_ok_def a b c d x)
  from ok have pdis: "distinct [pa, pb, pc, pd, px]"
    by (simp add: sle_ok_def dp)
  from env(2) obtain ta ga tb gb tc gc td gd where e: "env_a env = Some (ta, ga)"
    "env_b env = Some (tb, gb)" "env_c env = Some (tc, gc)" "env_d env = Some (td, gd)"
    by (auto simp: env_succeeds_def)
  from env(1) have fresh: "bufs h ta = None" "bufs h tb = None" "bufs h tc = None" "bufs h td = None"
    and tdis: "distinct [ta, tb, tc, td]"
    by (simp_all add: env_fresh_def malloc_fresh_def e List.map_filter_simps)
  have tp: "set [ta, tb, tc, td] \<inter> set [pa, pb, pc, pd, px] = {}"
    using fresh a(5) b(5) c(5) d(5) x(5) by auto
  have dis: "distinct [pa, pb, pc, pd, ta, tb, tc, td]"
    using tp tdis pdis by auto
  have pxn: "px \<notin> set [pa, pb, pc, pd, ta, tb, tc, td]"
    using tp pdis by auto
  define h4 where "h4 = h\<lparr>bufs := (bufs h)(ta \<mapsto> map ga [0..<n], tb \<mapsto> map gb [0..<n],
      tc \<mapsto> map gc [0..<n], td \<mapsto> map gd [0..<n])\<rparr>"
  have L4: "lay h h4 s n (pa, pb, pc, pd) (ta, tb, tc, td) (A, B, C, D)"
    unfolding lay_def h4_def
    using dis qdis
    by (auto simp: slot_def blk_def a b c d diag_restore deref_diag_def)
  define nl where "nl = total_levels_of n"
  have nl30: "nl \<le> 30" unfolding nl_def using n(2) by (rule total_levels_of_le)
  have "(2::int) ^ (nl - 1) \<le> 2 ^ 30" using nl30 by (intro power_increasing) auto
  moreover have "int n \<le> 2 ^ 30" using n(2) by (metis of_nat_le_iff of_nat_numeral of_nat_power)
  ultimately have ov: "int n - 1 + 2 ^ (nl - 1) \<le> INT_MAX" by (simp add: INT_MAX_def)
  have nl31: "nl \<le> 31" using nl30 by simp
  obtain A' B' C' D' where V': "reduce_from ops n nl 0 (A, B, C, D) = (A', B', C', D')"
    by (cases "reduce_from ops n nl 0 (A, B, C, D)") auto
  have co: "sle_coeffs h s = (A, B, C, D)"
    by (simp add: sle_coeffs_def buf_of_def deref_diag_def deref_buf_def a b c d)
  let ?X = "solve_list ops n D' B'"
  have res: "pcr_result ops h s n = h\<lparr>bufs := (bufs h)(pa \<mapsto> A', pb \<mapsto> B', pc \<mapsto> C', pd \<mapsto> D',
       px \<mapsto> ?X)\<rparr>"
    by (simp add: pcr_result_def co nl_def [symmetric] V' dp)
  have start: "pcr ops env h (Some s) =
     Option.bind (pcr_levels ops s nl 0 (h4, somes (ta, tb, tc, td))) (\<lambda>(h5, tmps1).
       Option.bind (solve_rows ops h5 s n) (\<lambda>h6.
       Option.bind
         (if odd nl
          then Option.bind (copy_back h6 s tmps1 n) (\<lambda>h7. swap_buffers h7 s tmps1)
          else Some (h6, tmps1)) (\<lambda>(h8, tmps2).
       Option.bind (free_tmps h8 tmps2) (\<lambda>h9. Some (0, h9)))))"
    using n(1)
    by (simp add: pcr_def deref_diag_def b e malloc_buf_def nl_def h4_def somes_def Let_def
        cong del: if_weak_cong)
  let ?h0x = "h\<lparr>bufs := (bufs h)(px \<mapsto> ?X)\<rparr>"
  have dpx: "data_ptr ?h0x (sle_a s) = Some pa" "data_ptr ?h0x (sle_b s) = Some pb"
    "data_ptr ?h0x (sle_c s) = Some pc" "data_ptr ?h0x (sle_d s) = Some pd"
    by (simp_all add: data_ptr_def deref_diag_def a b c d)
  have freshx: "bufs ?h0x ta = None" "bufs ?h0x tb = None" "bufs ?h0x tc = None" "bufs ?h0x td = None"
    using pxn fresh by auto
  have xq: "Some qx \<notin> set [sle_a s, sle_b s, sle_c s, sle_d s]"
    using qdis by (auto simp: a b c d)
  have fin: "?h0x\<lparr>bufs := (bufs ?h0x)(pa \<mapsto> A', pb \<mapsto> B', pc \<mapsto> C', pd \<mapsto> D')\<rparr> =
        pcr_result ops h s n"
    unfolding res using pxn by (auto intro!: heap.equality)
  show ?thesis
  proof (cases "even nl")
    case True
    from pcr_levels_lay [OF n(1) nl31 ov, of 0 nl h h4 s "(pa, pb, pc, pd)" "(ta, tb, tc, td)"
        "(A, B, C, D)" ops] L4 True
    obtain h5 where r5: "pcr_levels ops s nl 0 (h4, somes (ta, tb, tc, td)) =
          Some (h5, somes (ta, tb, tc, td))"
      and L5: "lay h h5 s n (pa, pb, pc, pd) (ta, tb, tc, td) (A', B', C', D')"
      by (auto simp: V')
    have r6: "solve_rows ops h5 s n = Some (h5\<lparr>bufs := (bufs h5)(px \<mapsto> ?X)\<rparr>)"
      by (rule solve_rows_lay [OF L5 x(1) xq x(2) x(4) _ x(5) x(6)]) (use pxn in simp)
    have L6: "lay ?h0x (h5\<lparr>bufs := (bufs h5)(px \<mapsto> ?X)\<rparr>) s n (pa, pb, pc, pd) (ta, tb, tc, td)
        (A', B', C', D')"
      by (rule lay_set_other [OF L5]) (use pxn in simp)
    have r9: "free_tmps (h5\<lparr>bufs := (bufs h5)(px \<mapsto> ?X)\<rparr>) (somes (ta, tb, tc, td)) =
        Some (pcr_result ops h s n)"
      unfolding free_tmps_lay [OF L6] lay_final [OF L6 dpx freshx] fin ..
    show ?thesis
      unfolding start using True by (simp add: r5 r6 r9)
  next
    case False
    from pcr_levels_lay [OF n(1) nl31 ov, of 0 nl h h4 s "(pa, pb, pc, pd)" "(ta, tb, tc, td)"
        "(A, B, C, D)" ops] L4 False
    obtain h5 where r5: "pcr_levels ops s nl 0 (h4, somes (ta, tb, tc, td)) =
          Some (h5, somes (pa, pb, pc, pd))"
      and L5: "lay h h5 s n (ta, tb, tc, td) (pa, pb, pc, pd) (A', B', C', D')"
      by (auto simp: V')
    have r6: "solve_rows ops h5 s n = Some (h5\<lparr>bufs := (bufs h5)(px \<mapsto> ?X)\<rparr>)"
      by (rule solve_rows_lay [OF L5 x(1) xq x(2) x(4) _ x(5) x(6)]) (use pxn in auto)
    have L6: "lay ?h0x (h5\<lparr>bufs := (bufs h5)(px \<mapsto> ?X)\<rparr>) s n (ta, tb, tc, td) (pa, pb, pc, pd)
        (A', B', C', D')"
      by (rule lay_set_other [OF L5]) (use pxn in auto)
    from copy_back_swap_lay [OF L6]
    obtain h7 h8 where r7: "copy_back (h5\<lparr>bufs := (bufs h5)(px \<mapsto> ?X)\<rparr>) s
           (somes (pa, pb, pc, pd)) n = Some h7"
      and r8: "swap_buffers h7 s (somes (pa, pb, pc, pd)) = Some (h8, somes (ta, tb, tc, td))"
      and L8: "lay ?h0x h8 s n (pa, pb, pc, pd) (ta, tb, tc, td) (A', B', C', D')"
      by blast
    have r9: "free_tmps h8 (somes (ta, tb, tc, td)) = Some (pcr_result ops h s n)"
      unfolding free_tmps_lay [OF L8] lay_final [OF L8 dpx freshx] fin ..
    show ?thesis
      unfolding start using False by (simp add: r5 r6 r7 r8 r9)
  qed
qed

lemma total_levels_of_1: "total_levels_of (Suc 0) = 0"
  by (simp add: total_levels_of_def float_of_size_def bit_length.simps ceil_log2.simps)

lemma sle_ok_bufs:
  assumes "sle_ok h s n"
  shows "\<exists>pa pb pc pd px A B C D X.
     data_ptr h (sle_a s) = Some pa \<and> data_ptr h (sle_b s) = Some pb \<and>
     data_ptr h (sle_c s) = Some pc \<and> data_ptr h (sle_d s) = Some pd \<and>
     data_ptr h (sle_x s) = Some px \<and>
     buf_of h (sle_a s) = Some A \<and> buf_of h (sle_b s) = Some B \<and> buf_of h (sle_c s) = Some C \<and>
     buf_of h (sle_d s) = Some D \<and> buf_of h (sle_x s) = Some X \<and>
     bufs h pa = Some A \<and> bufs h pb = Some B \<and> bufs h pc = Some C \<and> bufs h pd = Some D \<and>
     bufs h px = Some X \<and>
     length A = n \<and> length B = n \<and> length C = n \<and> length D = n \<and> length X = n \<and>
     distinct [pa, pb, pc, pd, px] \<and>
     (\<exists>db. deref_diag h (sle_b s) = Some db \<and> diag_n db = n)"
proof -
  from assms have "diag_ok h (sle_a s) n" by (simp add: sle_ok_def)
  from diag_okD [OF this] obtain qa dga pa A where a: "sle_a s = Some qa" "diags h qa = Some dga"
    "diag_n dga = n" "diag_data dga = Some pa" "bufs h pa = Some A" "length A = n" by blast
  from assms have "diag_ok h (sle_b s) n" by (simp add: sle_ok_def)
  from diag_okD [OF this] obtain qb dgb pb B where b: "sle_b s = Some qb" "diags h qb = Some dgb"
    "diag_n dgb = n" "diag_data dgb = Some pb" "bufs h pb = Some B" "length B = n" by blast
  from assms have "diag_ok h (sle_c s) n" by (simp add: sle_ok_def)
  from diag_okD [OF this] obtain qc dgc pc C where c: "sle_c s = Some qc" "diags h qc = Some dgc"
    "diag_n dgc = n" "diag_data dgc = Some pc" "bufs h pc = Some C" "length C = n" by blast
  from assms have "diag_ok h (sle_d s) n" by (simp add: sle_ok_def)
  from diag_okD [OF this] obtain qd dgd pd D where d: "sle_d s = Some qd" "diags h qd = Some dgd"
    "diag_n dgd = n" "diag_data dgd = Some pd" "bufs h pd = Some D" "length D = n" by blast
  from assms have "diag_ok h (sle_x s) n" by (simp add: sle_ok_def)
  from diag_okD [OF this] obtain qx dgx px X where x: "sle_x s = Some qx" "diags h qx = Some dgx"
    "diag_n dgx = n" "diag_data dgx = Some px" "bufs h px = Some X" "length X = n" by blast
  have dp: "data_ptr h (sle_a s) = Some pa" "data_ptr h (sle_b s) = Some pb"
    "data_ptr h (sle_c s) = Some pc" "data_ptr h (sle_d s) = Some pd" "data_ptr h (sle_x s) = Some px"
    by (simp_all add: data_ptr_def deref_diag_def a b c d x)
  have bo: "buf_of h (sle_a s) = Some A" "buf_of h (sle_b s) = Some B"
    "buf_of h (sle_c s) = Some C" "buf_of h (sle_d s) = Some D" "buf_of h (sle_x s) = Some X"
    by (simp_all add: buf_of_def deref_diag_def deref_buf_def a b c d x)
  from assms have pdis: "distinct [pa, pb, pc, pd, px]"
    by (simp add: sle_ok_def dp)
  have "\<exists>db. deref_diag h (sle_b s) = Some db \<and> diag_n db = n"
    by (simp add: deref_diag_def b)
  with dp bo a(5,6) b(5,6) c(5,6) d(5,6) x(5,6) pdis show ?thesis by blast
qed

text \<open>
  What \<^verbatim>\<open>pcr\<close> returns to its caller when it succeeds, read off \<open>pcr_run\<close>: the diagonal
  objects, and so the pointers to their blocks, are the ones passed in, whether the number
  of levels is odd or even; no block has been added or removed; the blocks of \<open>a\<close>, \<open>b\<close>,
  \<open>c\<close>, \<open>d\<close> hold the coefficients after all levels.
\<close>

lemma pcr_run_handles:
  assumes ok: "sle_ok h s n" and n: "0 < n" "n \<le> 2 ^ 30"
    and env: "env_fresh h env" "env_succeeds env"
  shows "\<exists>h'. pcr ops env h (Some s) = Some (0, h') \<and> diags h' = diags h \<and>
           dom (bufs h') = dom (bufs h) \<and>
           sle_coeffs h' s = reduce_from ops n (total_levels_of n) 0 (sle_coeffs h s)"
proof -
  from sle_ok_bufs [OF ok] obtain pa pb pc pd px A B C D X where f:
    "data_ptr h (sle_a s) = Some pa" "data_ptr h (sle_b s) = Some pb"
    "data_ptr h (sle_c s) = Some pc" "data_ptr h (sle_d s) = Some pd"
    "data_ptr h (sle_x s) = Some px"
    "buf_of h (sle_a s) = Some A" "buf_of h (sle_b s) = Some B" "buf_of h (sle_c s) = Some C"
    "buf_of h (sle_d s) = Some D"
    "bufs h pa = Some A" "bufs h pb = Some B" "bufs h pc = Some C" "bufs h pd = Some D"
    "bufs h px = Some X"
    and dis: "distinct [pa, pb, pc, pd, px]"
    by blast
  obtain A' B' C' D' where V: "reduce_from ops n (total_levels_of n) 0 (A, B, C, D) = (A', B', C', D')"
    by (cases "reduce_from ops n (total_levels_of n) 0 (A, B, C, D)") auto
  let ?h' = "pcr_result ops h s n"
  have r: "?h' = h\<lparr>bufs := (bufs h)(pa \<mapsto> A', pb \<mapsto> B', pc \<mapsto> C', pd \<mapsto> D',
       px \<mapsto> solve_list ops n D' B')\<rparr>"
    by (simp add: pcr_result_def sle_coeffs_def f V)
  have dg: "diags ?h' = diags h" by (simp add: r)
  have dm: "dom (bufs ?h') = dom (bufs h)"
    using f(10-14) by (auto simp: r)
  have bo: "\<And>dp. buf_of ?h' dp = Option.bind (data_ptr h dp) (bufs ?h')"
    by (simp add: buf_of_def data_ptr_def deref_diag_def deref_buf_def dg
        split: option.splits Option.bind_splits)
  have co: "sle_coeffs ?h' s = (A', B', C', D')"
    using dis by (simp add: sle_coeffs_def bo f) (simp add: r)
  from pcr_run [OF ok n env, of ops] dg dm co show ?thesis
    by (simp add: sle_coeffs_def f V)
qed

section \<open>\<^verbatim>\<open>diagonal_destroy\<close> on a null handle\<close>

text \<open>
  C2. The header \<^verbatim>\<open>diagonal.h\<close> promises that \<^verbatim>\<open>diagonal_destroy\<close> has no effect for a
  null pointer. The function reads \<^verbatim>\<open>diag->data\<close> before any test, so a null handle is
  dereferenced: the call has no defined result, and is not the successful no-operation
  that the specification describes.
\<close>

theorem diagonal_destroy_null_undefined:
  "diagonal_destroy h None = None"
  by (simp add: diagonal_destroy_def free_data_if_not_null_def deref_diag_def)

section \<open>A system of one row\<close>

text \<open>
  C9. For a system of size 1 whose four scratch blocks are allocated, \<^verbatim>\<open>pcr\<close> runs no
  level (\<open>total_levels_of 1 = 0\<close>) and returns 0; in the heap it leaves, only the block of
  \<open>x\<close> differs from before, and its one cell holds \<open>d[0] / b[0]\<close>. So the diagonals and the
  cells of \<open>a\<close>, \<open>b\<close>, \<open>c\<close> and \<open>d\<close> are as they were, and no neighbour enters \<open>x[0]\<close>.
\<close>

theorem pcr_single_row:
  assumes ok: "sle_ok h s 1" and env: "env_fresh h env" "env_succeeds env"
  shows "total_levels_of 1 = 0 \<and>
    pcr ops env h (Some s) =
      Some (0, h\<lparr>bufs := (bufs h)(the (data_ptr h (sle_x s)) \<mapsto>
                 [f_div ops (the (buf_of h (sle_d s)) ! 0) (the (buf_of h (sle_b s)) ! 0)])\<rparr>)"
proof -
  from sle_ok_bufs [OF ok] obtain pa pb pc pd px A B C D X where f:
    "data_ptr h (sle_a s) = Some pa" "data_ptr h (sle_b s) = Some pb"
    "data_ptr h (sle_c s) = Some pc" "data_ptr h (sle_d s) = Some pd"
    "data_ptr h (sle_x s) = Some px"
    "buf_of h (sle_a s) = Some A" "buf_of h (sle_b s) = Some B" "buf_of h (sle_c s) = Some C"
    "buf_of h (sle_d s) = Some D" "buf_of h (sle_x s) = Some X"
    "bufs h pa = Some A" "bufs h pb = Some B" "bufs h pc = Some C" "bufs h pd = Some D"
    by blast
  have same: "(bufs h)(pa \<mapsto> A, pb \<mapsto> B, pc \<mapsto> C, pd \<mapsto> D) = bufs h"
    using f(11-14) by (auto simp: fun_upd_idem)
  have "pcr ops env h (Some s) = Some (0, pcr_result ops h s 1)"
    by (rule pcr_run [OF ok _ _ env]) simp_all
  moreover have "pcr_result ops h s 1 = h\<lparr>bufs := (bufs h)(px \<mapsto> [f_div ops (D ! 0) (B ! 0)])\<rparr>"
    by (simp add: pcr_result_def total_levels_of_1 sle_coeffs_def f solve_list_def same)
  ultimately show ?thesis by (simp add: f total_levels_of_1)
qed

theorem pcr_single_row_witness:
  "sle_ok (ex_heap 1 [Num 0] [Num 2] [Num 0] [Num 6] [Num 0]) ex_sle 1 \<and>
   env_fresh (ex_heap 1 [Num 0] [Num 2] [Num 0] [Num 6] [Num 0]) ex_env \<and> env_succeeds ex_env \<and>
   pcr xops ex_env (ex_heap 1 [Num 0] [Num 2] [Num 0] [Num 6] [Num 0]) (Some ex_sle) =
     Some (0, ex_heap 1 [Num 0] [Num 2] [Num 0] [Num 6] [Num 3])"
proof -
  let ?h = "ex_heap 1 [Num 0] [Num 2] [Num 0] [Num 6] [Num 0]"
  have ok: "sle_ok ?h ex_sle 1"
    by (simp add: sle_ok_def diag_ok_def deref_diag_def deref_buf_def data_ptr_def ex_heap_def ex_sle_def)
  have e1: "env_fresh ?h ex_env"
    by (simp add: env_fresh_def malloc_fresh_def ex_env_def ex_heap_def List.map_filter_simps)
  have e2: "env_succeeds ex_env"
    by (simp add: env_succeeds_def ex_env_def)
  have "ex_heap 1 [Num 0] [Num 2] [Num 0] [Num 6] [Num 3] =
      ?h\<lparr>bufs := (bufs ?h)(the (data_ptr ?h (sle_x ex_sle)) \<mapsto>
         [f_div xops (the (buf_of ?h (sle_d ex_sle)) ! 0) (the (buf_of ?h (sle_b ex_sle)) ! 0)])\<rparr>"
    by (simp add: ex_heap_def ex_sle_def data_ptr_def buf_of_def deref_diag_def deref_buf_def xops_def)
  with pcr_single_row [OF ok e1 e2, of xops] ok e1 e2 show ?thesis by simp
qed

section \<open>Failure of an allocation\<close>

text \<open>
  C7. For a system of size \<open>n \<ge> 1\<close>, if at least one of the four calls of \<^verbatim>\<open>malloc\<close> returns
  \<^verbatim>\<open>NULL\<close>, \<^verbatim>\<open>pcr\<close> returns -1 and the heap is the one before the call: no cell of the
  system has changed and every block that was allocated has been freed.
\<close>

theorem pcr_alloc_failure:
  assumes b: "deref_diag h (sle_b s) = Some db" "0 < diag_n db"
    and env: "env_fresh h env" "\<not> env_succeeds env"
  shows "pcr ops env h (Some s) = Some (- 1, h)"
proof -
  have eq: "\<And>f. f = bufs h \<Longrightarrow> h\<lparr>bufs := f\<rparr> = h" by simp
  show ?thesis
    using b env
    apply (cases "env_a env"; cases "env_b env"; cases "env_c env"; cases "env_d env")
    apply (auto simp: pcr_def Let_def malloc_buf_def free_tmps_def free_buf_def env_fresh_def
      malloc_fresh_def env_succeeds_def List.map_filter_simps fun_upd_idem intro!: eq)
    done
qed

theorem pcr_alloc_failure_witness:
  "deref_diag (ex_heap 2 [Num 0, Num 1] [Num 2, Num 2] [Num 1, Num 0] [Num 3, Num 3] [Num 0, Num 0])
      (sle_b ex_sle) = Some \<lparr>diag_n = 2, diag_data = Some 11\<rparr> \<and>
   env_fresh (ex_heap 2 [Num 0, Num 1] [Num 2, Num 2] [Num 1, Num 0] [Num 3, Num 3] [Num 0, Num 0])
      (ex_env\<lparr>env_c := None\<rparr>) \<and>
   \<not> env_succeeds (ex_env\<lparr>env_c := None\<rparr>) \<and>
   pcr xops (ex_env\<lparr>env_c := None\<rparr>)
     (ex_heap 2 [Num 0, Num 1] [Num 2, Num 2] [Num 1, Num 0] [Num 3, Num 3] [Num 0, Num 0])
     (Some ex_sle) =
     Some (- 1, ex_heap 2 [Num 0, Num 1] [Num 2, Num 2] [Num 1, Num 0] [Num 3, Num 3] [Num 0, Num 0])"
proof -
  let ?h = "ex_heap 2 [Num 0, Num 1] [Num 2, Num 2] [Num 1, Num 0] [Num 3, Num 3] [Num 0, Num 0]"
  let ?env = "ex_env\<lparr>env_c := None\<rparr>"
  have b: "deref_diag ?h (sle_b ex_sle) = Some \<lparr>diag_n = 2, diag_data = Some 11\<rparr>"
    by (simp add: deref_diag_def ex_heap_def ex_sle_def)
  have pos: "0 < diag_n \<lparr>diag_n = 2, diag_data = Some 11\<rparr>" by simp
  have e1: "env_fresh ?h ?env"
    by (simp add: env_fresh_def malloc_fresh_def ex_env_def ex_heap_def List.map_filter_simps)
  have e2: "\<not> env_succeeds ?env"
    by (simp add: env_succeeds_def)
  from pcr_alloc_failure [OF b pos e1 e2, of xops] b e1 e2 show ?thesis by simp
qed

section \<open>The number of levels\<close>

text \<open>
  \<open>ceil_log2\<close> is the ceiling of the binary logarithm, and up to \<open>n = 2\<^sup>2\<^sup>4\<close> the conversion to
  \<^verbatim>\<open>float\<close> is exact, so that \<^verbatim>\<open>pcr\<close> runs \<open>\<lceil>log\<^sub>2 n\<rceil>\<close> levels there.
\<close>

lemma ceil_log2_bounds:
  "2 \<le> m \<Longrightarrow> 2 ^ (ceil_log2 m - 1) < m \<and> m \<le> 2 ^ ceil_log2 m"
proof (induction m rule: ceil_log2.induct)
  case (1 m)
  let ?m' = "(m + 1) div 2"
  have c: "ceil_log2 m = Suc (ceil_log2 ?m')"
    using "1.prems" by (subst ceil_log2.simps) simp
  show ?case
  proof (cases "2 \<le> ?m'")
    case True
    with "1.IH" "1.prems" have IH: "2 ^ (ceil_log2 ?m' - 1) < ?m'" "?m' \<le> 2 ^ ceil_log2 ?m'"
      by auto
    from True have "ceil_log2 ?m' \<noteq> 0" by (subst ceil_log2.simps) simp
    then obtain j where j: "ceil_log2 ?m' = Suc j" by (cases "ceil_log2 ?m'") auto
    from IH(1) j have "2 ^ j + 1 \<le> ?m'" by simp
    then have "2 * 2 ^ j + 2 \<le> 2 * ?m'" by simp
    also have "2 * ?m' \<le> m + 1" by presburger
    finally have lo: "2 ^ Suc j < m" by simp
    have "m \<le> 2 * ?m'" by presburger
    also have "\<dots> \<le> 2 * 2 ^ ceil_log2 ?m'" using IH(2) by simp
    finally have up: "m \<le> 2 ^ Suc (ceil_log2 ?m')" by simp
    from lo up show ?thesis unfolding c j by simp
  next
    case False
    with "1.prems" have m2: "m = 2" by presburger
    have "ceil_log2 2 = Suc 0" by (simp add: ceil_log2.simps)
    then show ?thesis by (simp add: m2)
  qed
qed

lemma ceil_log2_ceiling:
  assumes "0 < m"
  shows "int (ceil_log2 m) = \<lceil>log 2 (real m)\<rceil>"
proof (cases "2 \<le> m")
  case True
  from ceil_log2_bounds [OF True] obtain j where j: "ceil_log2 m = Suc j"
    by (cases "ceil_log2 m") (use True in auto)
  from ceil_log2_bounds [OF True] j have "2 ^ j < m" "m \<le> 2 ^ (j + 1)" by simp_all
  from ceiling_log_nat_eq_if [OF this] show ?thesis by (simp add: j)
next
  case False
  with assms have "m = 1" by simp
  then show ?thesis by (simp add: ceil_log2.simps)
qed

lemma float_of_size_exact:
  assumes "n \<le> 2 ^ 24"
  shows "float_of_size n = n"
proof (cases "n = 2 ^ 24")
  case True
  have "bit_length (2 ^ 24) = 25" by (simp add: bit_length.simps)
  then show ?thesis by (simp add: True float_of_size_def)
next
  case False
  with assms have lt: "n < 2 ^ 24" by simp
  have "bit_length n \<le> 24"
  proof (cases "n = 0")
    case True
    then show ?thesis by (simp add: bit_length.simps)
  next
    case F: False
    with bit_length_bounds [of n] have "2 ^ (bit_length n - 1) \<le> n" by simp
    with lt have "(2::nat) ^ (bit_length n - 1) < 2 ^ 24" by linarith
    then have "bit_length n - 1 < 24" by (rule power_less_imp_less_exp [rotated]) simp
    then show ?thesis by simp
  qed
  then show ?thesis by (simp add: float_of_size_def)
qed

lemma total_levels_of_exact:
  assumes "0 < n" "n \<le> 2 ^ 24"
  shows "int (total_levels_of n) = \<lceil>log 2 (real n)\<rceil>"
  by (simp add: total_levels_of_def float_of_size_exact [OF assms(2)] ceil_log2_ceiling [OF assms(1)])

text \<open>
  C4. \<^verbatim>\<open>pcr\<close> computes the number of levels from \<^verbatim>\<open>(float)n\<close>. A system of
  \<open>n = 16777217 = 2\<^sup>2\<^sup>4 + 1\<close> rows has \<open>\<lceil>log\<^sub>2 n\<rceil> = 25\<close>, but \<open>n\<close> has no \<^verbatim>\<open>float\<close> of its own and
  is rounded to \<open>2\<^sup>2\<^sup>4\<close>, so that \<^verbatim>\<open>pcr\<close> runs 24 levels only. (That the diagonals point to
  their original blocks on return, for an odd and for an even number of levels, and that
  these blocks hold the coefficients after the levels that were run, is
  \<open>pcr_run_handles\<close>.)
\<close>

theorem pcr_levels_float_rounding:
  "total_levels_of 16777217 = 24 \<and> \<lceil>log 2 (16777217::real)\<rceil> = 25"
proof
  show "total_levels_of 16777217 = 24"
    by (simp add: total_levels_of_def float_of_size_def bit_length.simps ceil_log2.simps)
  show "\<lceil>log 2 (16777217::real)\<rceil> = 25"
    using ceiling_log_nat_eq_if [of 2 24 16777217] by simp
qed

lemma map_upt_eqI:
  "length xs = n \<Longrightarrow> (\<And>i. i < n \<Longrightarrow> f i = xs ! i) \<Longrightarrow> map f [0..<n] = xs"
  by (auto intro: nth_equalityI)

lemma xops_sel:
  "f_zero xops = Num 0" "f_one xops = Num 1" "f_eps xops = Num (1 / 10 ^ 30)"
  "f_hundred xops = Num 100" "f_neg xops = x_neg" "f_add xops = x_add" "f_sub xops = x_sub"
  "f_mul xops = x_mul" "f_div xops = x_div" "f_abs xops = x_abs" "f_eq xops = x_eq"
  "f_gt xops = x_gt" "f_of_size xops = (\<lambda>n. Num (of_nat n))"
  by (simp_all add: xops_def)

lemma cdc_zero: "compute_decoupling_coeffs xops (Num y) (Num 0) = Num 0"
  by (simp add: compute_decoupling_coeffs_def xops_sel)

lemma update_row_decoupled:
  assumes i: "i < n" and len: "length bs = n" "length ds = n" and st: "0 \<le> stride"
  shows "update_row xops n stride (replicate n (Num 0)) (map Num bs) (replicate n (Num 0))
           (map Num ds) i = (Num 0, Num (bs ! i), Num 0, Num (ds ! i))"
proof -
  let ?l = "int i - stride" and ?r = "int i + stride"
  have l: "\<not> ?l < 0 \<Longrightarrow> nat ?l < n" using i st by linarith
  have r: "?r < int n \<Longrightarrow> nat ?r < n" using st by linarith
  have alpha: "compute_decoupling_coeffs xops
      (if ?l < 0 then f_one xops else map Num bs ! nat ?l) (replicate n (Num 0) ! i) = Num 0"
    using i l len by (cases "?l < 0") (simp_all add: cdc_zero xops_sel)
  have gamma: "compute_decoupling_coeffs xops
      (if ?r < int n then map Num bs ! nat ?r else f_one xops) (replicate n (Num 0) ! i) = Num 0"
    using i r len by (cases "?r < int n") (simp_all add: cdc_zero xops_sel)
  show ?thesis
    unfolding update_row_def Let_def alpha gamma
    using i l r len by (simp add: xops_sel)
qed

lemma reduce_level_decoupled:
  assumes len: "length bs = n" "length ds = n"
  shows "reduce_level xops n level (replicate n (Num 0), map Num bs, replicate n (Num 0), map Num ds)
         = (replicate n (Num 0), map Num bs, replicate n (Num 0), map Num ds)"
  using len
  by (simp add: reduce_level_def Let_def update_row_decoupled map_upt_eqI cong: map_cong)

lemma reduce_from_decoupled:
  assumes len: "length bs = n" "length ds = n"
  shows "reduce_from xops n k level (replicate n (Num 0), map Num bs, replicate n (Num 0), map Num ds)
         = (replicate n (Num 0), map Num bs, replicate n (Num 0), map Num ds)"
  by (induction k arbitrary: level) (simp_all add: reduce_level_decoupled len)

section \<open>Decoupled systems\<close>

text \<open>
  The decoupled case in exact arithmetic, where the indices are defined: for a system of
  any size \<open>n\<close> up to \<open>2\<^sup>3\<^sup>0\<close> whose \<open>a\<close> and \<open>c\<close> are all zero, whose \<open>b\<close> has no zero
  and whose \<open>d\<close> is \<open>k\<close> times \<open>b\<close>, \<^verbatim>\<open>pcr\<close> returns 0 and leaves the heap as it was except
  for the block of \<open>x\<close>, which holds \<open>k\<close> in every cell. Every level maps such coefficients
  to themselves (\<open>reduce_level_decoupled\<close>).
\<close>

theorem pcr_decoupled:
  assumes ok: "sle_ok h s n" and n: "n \<le> 2 ^ 30"
    and env: "env_fresh h env" "env_succeeds env"
    and a: "buf_of h (sle_a s) = Some (replicate n (Num 0))"
    and c: "buf_of h (sle_c s) = Some (replicate n (Num 0))"
    and b: "buf_of h (sle_b s) = Some (map Num bs)" "0 \<notin> set bs"
    and d: "buf_of h (sle_d s) = Some (map (\<lambda>b. Num (k * b)) bs)"
  shows "pcr xops env h (Some s) =
     Some (0, h\<lparr>bufs := (bufs h)(the (data_ptr h (sle_x s)) \<mapsto> replicate n (Num k))\<rparr>)"
proof -
  from sle_ok_bufs [OF ok] obtain pa pb pc pd px A B C D X db where f:
    "data_ptr h (sle_a s) = Some pa" "data_ptr h (sle_b s) = Some pb"
    "data_ptr h (sle_c s) = Some pc" "data_ptr h (sle_d s) = Some pd"
    "data_ptr h (sle_x s) = Some px"
    "buf_of h (sle_a s) = Some A" "buf_of h (sle_b s) = Some B" "buf_of h (sle_c s) = Some C"
    "buf_of h (sle_d s) = Some D" "buf_of h (sle_x s) = Some X"
    "bufs h pa = Some A" "bufs h pb = Some B" "bufs h pc = Some C" "bufs h pd = Some D"
    "bufs h px = Some X" and len: "length B = n" "length D = n" "length X = n"
    and db: "deref_diag h (sle_b s) = Some db" "diag_n db = n"
    by blast
  from f a b c d have v: "A = replicate n (Num 0)" "B = map Num bs" "C = replicate n (Num 0)"
    "D = map (\<lambda>b. Num (k * b)) bs" by simp_all
  from v len have lbs: "length bs = n" by simp
  have D': "D = map Num (map (\<lambda>b. k * b) bs)" by (simp add: v)
  have same: "(bufs h)(pa \<mapsto> A, pb \<mapsto> B, pc \<mapsto> C, pd \<mapsto> D) = bufs h"
    using f(11-14) by (auto simp: fun_upd_idem)
  show ?thesis
  proof (cases "n = 0")
    case True
    with len f have "bufs h px = Some []" by simp
    then have "h\<lparr>bufs := (bufs h)(px \<mapsto> [])\<rparr> = h" by (simp add: fun_upd_idem)
    then show ?thesis using True db by (simp add: pcr_def f)
  next
    case False
    then have pos: "0 < n" by simp
    have red: "reduce_from xops n (total_levels_of n) 0 (A, B, C, D) = (A, B, C, D)"
      unfolding v(1-3) D' by (rule reduce_from_decoupled) (simp_all add: lbs)
    have sol: "solve_list xops n D B = replicate n (Num k)"
      unfolding solve_list_def
    proof (rule map_upt_eqI)
      show "length (replicate n (Num k)) = n" by simp
      fix i assume i: "i < n"
      with lbs b(2) have "bs ! i \<noteq> 0" by (metis nth_mem)
      with i lbs show "f_div xops (D ! i) (B ! i) = replicate n (Num k) ! i"
        by (simp add: v xops_sel)
    qed
    have "pcr_result xops h s n = h\<lparr>bufs := (bufs h)(px \<mapsto> replicate n (Num k))\<rparr>"
      using same by (simp add: pcr_result_def sle_coeffs_def f red sol)
    with pcr_run [OF ok pos n env, of xops] show ?thesis by (simp add: f)
  qed
qed

theorem pcr_decoupled_witness:
  "sle_ok (ex_heap 2 [Num 0, Num 0] [Num 2, Num 4] [Num 0, Num 0] [Num 6, Num 12] [Num 0, Num 0])
     ex_sle 2 \<and>
   env_fresh (ex_heap 2 [Num 0, Num 0] [Num 2, Num 4] [Num 0, Num 0] [Num 6, Num 12] [Num 0, Num 0])
     ex_env \<and>
   env_succeeds ex_env \<and>
   pcr xops ex_env
     (ex_heap 2 [Num 0, Num 0] [Num 2, Num 4] [Num 0, Num 0] [Num 6, Num 12] [Num 0, Num 0])
     (Some ex_sle) =
     Some (0, ex_heap 2 [Num 0, Num 0] [Num 2, Num 4] [Num 0, Num 0] [Num 6, Num 12] [Num 3, Num 3])"
proof -
  let ?h = "ex_heap 2 [Num 0, Num 0] [Num 2, Num 4] [Num 0, Num 0] [Num 6, Num 12] [Num 0, Num 0]"
  have ok: "sle_ok ?h ex_sle 2"
    by (simp add: sle_ok_def diag_ok_def deref_diag_def deref_buf_def data_ptr_def ex_heap_def
        ex_sle_def)
  have n: "(2::nat) \<le> 2 ^ 30" by simp
  have e1: "env_fresh ?h ex_env"
    by (simp add: env_fresh_def malloc_fresh_def ex_env_def ex_heap_def List.map_filter_simps)
  have e2: "env_succeeds ex_env"
    by (simp add: env_succeeds_def ex_env_def)
  have a: "buf_of ?h (sle_a ex_sle) = Some (replicate 2 (Num 0))"
    and c: "buf_of ?h (sle_c ex_sle) = Some (replicate 2 (Num 0))"
    and b: "buf_of ?h (sle_b ex_sle) = Some (map Num [2, 4])"
    and d: "buf_of ?h (sle_d ex_sle) = Some (map (\<lambda>b. Num (3 * b)) [2, 4])"
    by (simp_all add: buf_of_def deref_diag_def deref_buf_def ex_heap_def ex_sle_def
        numeral_2_eq_2)
  have nz: "(0::rat) \<notin> set [2, 4]" by simp
  have "ex_heap 2 [Num 0, Num 0] [Num 2, Num 4] [Num 0, Num 0] [Num 6, Num 12] [Num 3, Num 3] =
      ?h\<lparr>bufs := (bufs ?h)(the (data_ptr ?h (sle_x ex_sle)) \<mapsto> replicate 2 (Num 3))\<rparr>"
    by (simp add: ex_heap_def ex_sle_def data_ptr_def deref_diag_def numeral_2_eq_2)
  with pcr_decoupled [OF ok n e1 e2 a c b nz d] ok e1 e2 show ?thesis by simp
qed

lemma update_row_spec:
  assumes "i < n"
  shows "update_row ops n (int S) a b c d i =
     (spec_a' ops n S (a, b, c, d) i, spec_b' ops n S (a, b, c, d) i,
      spec_c' ops n S (a, b, c, d) i, spec_d' ops n S (a, b, c, d) i)"
proof -
  have l: "in_rows (int i - int S) n \<longleftrightarrow> \<not> int i - int S < 0"
    using assms by (auto simp: in_rows_def)
  have r: "in_rows (int i + int S) n \<longleftrightarrow> int i + int S < int n"
    by (auto simp: in_rows_def)
  show ?thesis
    by (simp add: update_row_def Let_def spec_a'_def spec_b'_def spec_c'_def spec_d'_def
        spec_alpha_def spec_gamma_def nb_main_def nb_val_def guarded_def
        compute_decoupling_coeffs_def l r)
qed

lemma reduce_level_spec:
  "reduce_level ops n level V =
     (map (spec_a' ops n (2 ^ level) V) [0..<n], map (spec_b' ops n (2 ^ level) V) [0..<n],
      map (spec_c' ops n (2 ^ level) V) [0..<n], map (spec_d' ops n (2 ^ level) V) [0..<n])"
proof -
  obtain a b c d where V: "V = (a, b, c, d)" by (cases V) auto
  have "\<And>i. i < n \<Longrightarrow> update_row ops n (2 ^ level) a b c d i =
     (spec_a' ops n (2 ^ level) V i, spec_b' ops n (2 ^ level) V i,
      spec_c' ops n (2 ^ level) V i, spec_d' ops n (2 ^ level) V i)"
    using update_row_spec [of _ n ops "2 ^ level" a b c d] by (simp add: V)
  then show ?thesis
    by (simp add: reduce_level_def Let_def V cong: map_cong)
qed

lemma lay_init:
  assumes ok: "sle_ok h s n"
    and t: "distinct [ta, tb, tc, td]" "blk h ta n" "blk h tb n" "blk h tc n" "blk h td n"
      "set [Some ta, Some tb, Some tc, Some td] \<inter> set (sle_blocks h s) = {}"
  shows "lay h h s n
     (the (data_ptr h (sle_a s)), the (data_ptr h (sle_b s)), the (data_ptr h (sle_c s)),
      the (data_ptr h (sle_d s)))
     (ta, tb, tc, td) (sle_coeffs h s)"
proof -
  from ok have "diag_ok h (sle_a s) n" by (simp add: sle_ok_def)
  from diag_okD [OF this] obtain qa dga pa A where a: "sle_a s = Some qa" "diags h qa = Some dga"
    "diag_n dga = n" "diag_data dga = Some pa" "bufs h pa = Some A" "length A = n" by blast
  from ok have "diag_ok h (sle_b s) n" by (simp add: sle_ok_def)
  from diag_okD [OF this] obtain qb dgb pb B where b: "sle_b s = Some qb" "diags h qb = Some dgb"
    "diag_n dgb = n" "diag_data dgb = Some pb" "bufs h pb = Some B" "length B = n" by blast
  from ok have "diag_ok h (sle_c s) n" by (simp add: sle_ok_def)
  from diag_okD [OF this] obtain qc dgc pc C where c: "sle_c s = Some qc" "diags h qc = Some dgc"
    "diag_n dgc = n" "diag_data dgc = Some pc" "bufs h pc = Some C" "length C = n" by blast
  from ok have "diag_ok h (sle_d s) n" by (simp add: sle_ok_def)
  from diag_okD [OF this] obtain qd dgd pd D where d: "sle_d s = Some qd" "diags h qd = Some dgd"
    "diag_n dgd = n" "diag_data dgd = Some pd" "bufs h pd = Some D" "length D = n" by blast
  have dp: "data_ptr h (sle_a s) = Some pa" "data_ptr h (sle_b s) = Some pb"
    "data_ptr h (sle_c s) = Some pc" "data_ptr h (sle_d s) = Some pd"
    by (simp_all add: data_ptr_def deref_diag_def a b c d)
  from ok have qdis: "distinct [qa, qb, qc, qd]"
    by (simp add: sle_ok_def a b c d)
  from ok have pdis: "distinct [pa, pb, pc, pd]"
    by (simp add: sle_ok_def dp)
  from t(6) have "set [ta, tb, tc, td] \<inter> set [pa, pb, pc, pd] = {}"
    by (auto simp: sle_blocks_def dp)
  with t(1) pdis have dis: "distinct [pa, pb, pc, pd, ta, tb, tc, td]" by auto
  have co: "sle_coeffs h s = (A, B, C, D)"
    by (simp add: sle_coeffs_def buf_of_def deref_diag_def deref_buf_def a b c d)
  show ?thesis
    unfolding lay_def co dp option.sel
    using dis qdis t(2-5)
    by (auto simp: slot_def a b c d diag_restore deref_diag_def)
qed

section \<open>One level of the reduction\<close>

text \<open>
  One level where the indices are defined. Let the system be well formed with \<open>n \<ge> 1\<close>
  rows, let the four \<^verbatim>\<open>tmp\<close> blocks be
  distinct blocks of \<open>n\<close> cells apart from the blocks of the system, and let \<open>level\<close> be
  such that the \<^verbatim>\<open>int\<close> arithmetic of the loop is defined (\<open>level < 31\<close> and
  \<open>n - 1 + 2\<^bsup>level\<^esup> \<le> INT_MAX\<close>, which holds at every level \<^verbatim>\<open>pcr\<close> runs when
  \<open>n \<le> 2\<^sup>3\<^sup>0\<close>). Then \<^verbatim>\<open>update_step\<close> changes nothing but the four \<^verbatim>\<open>tmp\<close> blocks, and
  writes into their cells \<open>i < n\<close> the values \<open>a'[i]\<close>, \<open>b'[i]\<close>, \<open>c'[i]\<close>, \<open>d'[i]\<close> of the
  specification for the stride \<open>2\<^bsup>level\<^esup>\<close>, computed from the cells of the system.
\<close>

theorem update_step_rows:
  assumes ok: "sle_ok h s n" and n: "0 < n"
    and t: "distinct [ta, tb, tc, td]" "blk h ta n" "blk h tb n" "blk h tc n" "blk h td n"
      "set [Some ta, Some tb, Some tc, Some td] \<inter> set (sle_blocks h s) = {}"
    and lv: "level < 31" "int n - 1 + 2 ^ level \<le> INT_MAX"
  shows "update_step ops h s (Some ta) (Some tb) (Some tc) (Some td) level =
     Some (h\<lparr>bufs := (bufs h)
       (ta \<mapsto> map (spec_a' ops n (2 ^ level) (sle_coeffs h s)) [0..<n],
        tb \<mapsto> map (spec_b' ops n (2 ^ level) (sle_coeffs h s)) [0..<n],
        tc \<mapsto> map (spec_c' ops n (2 ^ level) (sle_coeffs h s)) [0..<n],
        td \<mapsto> map (spec_d' ops n (2 ^ level) (sle_coeffs h s)) [0..<n])\<rparr>)"
proof -
  obtain A B C D where co: "sle_coeffs h s = (A, B, C, D)" by (cases "sle_coeffs h s") auto
  from lay_init [OF ok t] have "lay h h s n
     (the (data_ptr h (sle_a s)), the (data_ptr h (sle_b s)), the (data_ptr h (sle_c s)),
      the (data_ptr h (sle_d s))) (ta, tb, tc, td) (A, B, C, D)" by (simp add: co)
  from update_step_lay [OF this n lv, of ops] show ?thesis
    by (simp add: reduce_level_spec co)
qed

theorem update_step_rows_witness:
  "sle_ok (ex_heap_tmp 2 [Num 0, Num 1] [Num 2, Num 4] [Num 1, Num 0] [Num 3, Num 5] [Num 0, Num 0]
             [NaN, NaN] [NaN, NaN] [NaN, NaN] [NaN, NaN]) ex_sle 2 \<and>
   update_step xops
     (ex_heap_tmp 2 [Num 0, Num 1] [Num 2, Num 4] [Num 1, Num 0] [Num 3, Num 5] [Num 0, Num 0]
        [NaN, NaN] [NaN, NaN] [NaN, NaN] [NaN, NaN]) ex_sle (Some 20) (Some 21) (Some 22) (Some 23) 0 =
     Some (ex_heap_tmp 2 [Num 0, Num 1] [Num 2, Num 4] [Num 1, Num 0] [Num 3, Num 5] [Num 0, Num 0]
        [Num 0, Num 0] [Num (7 / 4), Num (7 / 2)] [Num 0, Num 0] [Num (7 / 4), Num (7 / 2)])"
proof -
  let ?h = "ex_heap_tmp 2 [Num 0, Num 1] [Num 2, Num 4] [Num 1, Num 0] [Num 3, Num 5] [Num 0, Num 0]
             [NaN, NaN] [NaN, NaN] [NaN, NaN] [NaN, NaN]"
  have ok: "sle_ok ?h ex_sle 2"
    by (simp add: sle_ok_def diag_ok_def deref_diag_def deref_buf_def data_ptr_def ex_heap_def
        ex_heap_tmp_def ex_sle_def)
  have n: "0 < (2::nat)" by simp
  have t: "distinct [20::nat, 21, 22, 23]" "blk ?h 20 2" "blk ?h 21 2" "blk ?h 22 2" "blk ?h 23 2"
    "set [Some 20, Some 21, Some 22, Some 23] \<inter> set (sle_blocks ?h ex_sle) = {}"
    by (simp_all add: blk_def sle_blocks_def data_ptr_def deref_diag_def ex_heap_def
        ex_heap_tmp_def ex_sle_def)
  have lv: "(0::nat) < 31" "int 2 - 1 + 2 ^ 0 \<le> INT_MAX" by (simp_all add: INT_MAX_def)
  have co: "sle_coeffs ?h ex_sle = ([Num 0, Num 1], [Num 2, Num 4], [Num 1, Num 0], [Num 3, Num 5])"
    by (simp add: sle_coeffs_def buf_of_def deref_diag_def deref_buf_def ex_heap_def
        ex_heap_tmp_def ex_sle_def)
  have up: "[0..<2] = [0, 1]" by (simp add: upt_rec)
  have v: "map (spec_a' xops 2 (2 ^ 0) (sle_coeffs ?h ex_sle)) [0..<2] = [Num 0, Num 0]"
     "map (spec_b' xops 2 (2 ^ 0) (sle_coeffs ?h ex_sle)) [0..<2] = [Num (7 / 4), Num (7 / 2)]"
     "map (spec_c' xops 2 (2 ^ 0) (sle_coeffs ?h ex_sle)) [0..<2] = [Num 0, Num 0]"
     "map (spec_d' xops 2 (2 ^ 0) (sle_coeffs ?h ex_sle)) [0..<2] = [Num (7 / 4), Num (7 / 2)]"
    by (simp_all add: co up spec_a'_def spec_b'_def spec_c'_def spec_d'_def spec_alpha_def
        spec_gamma_def nb_main_def nb_val_def guarded_def in_rows_def xops_sel)
  have "ex_heap_tmp 2 [Num 0, Num 1] [Num 2, Num 4] [Num 1, Num 0] [Num 3, Num 5] [Num 0, Num 0]
        [Num 0, Num 0] [Num (7 / 4), Num (7 / 2)] [Num 0, Num 0] [Num (7 / 4), Num (7 / 2)] =
      ?h\<lparr>bufs := (bufs ?h)(20 \<mapsto> [Num 0, Num 0], 21 \<mapsto> [Num (7 / 4), Num (7 / 2)],
           22 \<mapsto> [Num 0, Num 0], 23 \<mapsto> [Num (7 / 4), Num (7 / 2)])\<rparr>"
    by (simp add: ex_heap_tmp_def)
  with update_step_rows [OF ok n t lv, of xops] ok show ?thesis
    by (simp only: v)
qed

lemmas ex2_defs = ex_heap2_def ex_sle_def ex_src_def sle_ok_def diag_ok_def deref_diag_def
  deref_buf_def data_ptr_def buf_of_def sle_blocks_def

section \<open>Copying between systems of different sizes\<close>

text \<open>
  \<^verbatim>\<open>triSLE_copy\<close> tests its arguments for \<^verbatim>\<open>NULL\<close> and nothing else. Copying a system of one
  row into a system of two rows returns 0 and overwrites the first cell of each of the
  four coefficient blocks of the destination.
\<close>

theorem triSLE_copy_mismatch_counterexample:
  "sle_ok (ex_heap2 2 [Num 0, Num 0] [Num 0, Num 0] [Num 0, Num 0] [Num 0, Num 0] [Num 0, Num 0]
             1 [Num 1] [Num 2] [Num 3] [Num 4] [Num 5]) ex_sle 2 \<and>
   sle_ok (ex_heap2 2 [Num 0, Num 0] [Num 0, Num 0] [Num 0, Num 0] [Num 0, Num 0] [Num 0, Num 0]
             1 [Num 1] [Num 2] [Num 3] [Num 4] [Num 5]) ex_src 1 \<and>
   triSLE_copy
     (ex_heap2 2 [Num 0, Num 0] [Num 0, Num 0] [Num 0, Num 0] [Num 0, Num 0] [Num 0, Num 0]
        1 [Num 1] [Num 2] [Num 3] [Num 4] [Num 5]) (Some ex_sle) (Some ex_src) =
     Some (0, ex_heap2 2 [Num 1, Num 0] [Num 2, Num 0] [Num 3, Num 0] [Num 4, Num 0] [Num 0, Num 0]
        1 [Num 1] [Num 2] [Num 3] [Num 4] [Num 5])"
  by (simp add: ex2_defs triSLE_copy_def memcpy_def fun_eq_iff)

text \<open>
  C1, as the code has it. For two well-formed systems that share no block, the source
  not longer than the destination (\<open>ns \<le> nd\<close>, the sizes may differ), \<^verbatim>\<open>triSLE_copy\<close>
  returns 0, and in each of the blocks of \<open>a\<close>, \<open>b\<close>, \<open>c\<close> and \<open>d\<close> of the destination the first
  \<open>ns\<close> cells are those of the source and the others are unchanged. Nothing else changes,
  in particular not the block of \<open>x\<close>. With a null argument \<^verbatim>\<open>triSLE_copy\<close> returns -1 and
  changes nothing.
\<close>

theorem triSLE_copy_prefix:
  assumes okd: "sle_ok h dst nd" and oks: "sle_ok h src ns"
    and apart: "set (sle_blocks h dst) \<inter> set (sle_blocks h src) = {}"
    and le: "ns \<le> nd"
  shows "triSLE_copy h (Some dst) (Some src) =
     Some (0, h\<lparr>bufs := (bufs h)
       (the (data_ptr h (sle_a dst)) \<mapsto>
          take ns (the (buf_of h (sle_a src))) @ drop ns (the (buf_of h (sle_a dst))),
        the (data_ptr h (sle_b dst)) \<mapsto>
          take ns (the (buf_of h (sle_b src))) @ drop ns (the (buf_of h (sle_b dst))),
        the (data_ptr h (sle_c dst)) \<mapsto>
          take ns (the (buf_of h (sle_c src))) @ drop ns (the (buf_of h (sle_c dst))),
        the (data_ptr h (sle_d dst)) \<mapsto>
          take ns (the (buf_of h (sle_d src))) @ drop ns (the (buf_of h (sle_d dst))))\<rparr>) \<and>
     triSLE_copy h None (Some src) = Some (- 1, h) \<and>
     triSLE_copy h (Some dst) None = Some (- 1, h) \<and>
     triSLE_copy h None None = Some (- 1, h)"
proof -
  from sle_ok_bufs [OF okd] obtain pa pb pc pd px A B C D X where d:
    "data_ptr h (sle_a dst) = Some pa" "data_ptr h (sle_b dst) = Some pb"
    "data_ptr h (sle_c dst) = Some pc" "data_ptr h (sle_d dst) = Some pd"
    "data_ptr h (sle_x dst) = Some px"
    "buf_of h (sle_a dst) = Some A" "buf_of h (sle_b dst) = Some B" "buf_of h (sle_c dst) = Some C"
    "buf_of h (sle_d dst) = Some D"
    "bufs h pa = Some A" "bufs h pb = Some B" "bufs h pc = Some C" "bufs h pd = Some D"
    "length A = nd" "length B = nd" "length C = nd" "length D = nd"
    and ddis: "distinct [pa, pb, pc, pd, px]"
    by blast
  from sle_ok_bufs [OF oks] obtain ea eb ec ed ex E F G H Y db where s:
    "data_ptr h (sle_a src) = Some ea" "data_ptr h (sle_b src) = Some eb"
    "data_ptr h (sle_c src) = Some ec" "data_ptr h (sle_d src) = Some ed"
    "data_ptr h (sle_x src) = Some ex"
    "buf_of h (sle_a src) = Some E" "buf_of h (sle_b src) = Some F" "buf_of h (sle_c src) = Some G"
    "buf_of h (sle_d src) = Some H"
    "bufs h ea = Some E" "bufs h eb = Some F" "bufs h ec = Some G" "bufs h ed = Some H"
    "length E = ns" "length F = ns" "length G = ns" "length H = ns"
    and sdis: "distinct [ea, eb, ec, ed, ex]"
    and db: "deref_diag h (sle_b src) = Some db" "diag_n db = ns"
    by blast
  from apart have cross: "set [pa, pb, pc, pd] \<inter> set [ea, eb, ec, ed] = {}"
    by (auto simp: sle_blocks_def d s)
  have dis: "distinct [pa, pb, pc, pd, ea, eb, ec, ed]" "distinct [ed, ec, eb, ea, pd, pc, pb, pa]"
    using cross ddis sdis by auto
  have dp: "\<And>f dp. data_ptr (h\<lparr>bufs := f\<rparr>) dp = data_ptr h dp"
    by (simp add: data_ptr_def deref_diag_def split: option.splits)
  have null: "triSLE_copy h None (Some src) = Some (- 1, h)"
    "triSLE_copy h (Some dst) None = Some (- 1, h)"
    "triSLE_copy h None None = Some (- 1, h)"
    by (simp_all add: triSLE_copy_def)
  have "triSLE_copy h (Some dst) (Some src) =
     Some (0, h\<lparr>bufs := (bufs h)(pa \<mapsto> take ns E @ drop ns A, pb \<mapsto> take ns F @ drop ns B,
        pc \<mapsto> take ns G @ drop ns C, pd \<mapsto> take ns H @ drop ns D)\<rparr>)"
    using dis le
    by (simp add: triSLE_copy_def db d s dp memcpy_def deref_buf_def)
  with null show ?thesis by (simp add: d s)
qed

theorem triSLE_copy_prefix_witness:
  "sle_ok (ex_heap2 3 [Num 9, Num 9, Num 9] [Num 8, Num 8, Num 8] [Num 7, Num 7, Num 7]
              [Num 6, Num 6, Num 6] [Num 5, Num 5, Num 5]
             2 [Num 0, Num 1] [Num 2, Num 4] [Num 1, Num 0] [Num 3, Num 5] [Num 1, Num 1]) ex_sle 3 \<and>
   sle_ok (ex_heap2 3 [Num 9, Num 9, Num 9] [Num 8, Num 8, Num 8] [Num 7, Num 7, Num 7]
              [Num 6, Num 6, Num 6] [Num 5, Num 5, Num 5]
             2 [Num 0, Num 1] [Num 2, Num 4] [Num 1, Num 0] [Num 3, Num 5] [Num 1, Num 1]) ex_src 2 \<and>
   triSLE_copy
     (ex_heap2 3 [Num 9, Num 9, Num 9] [Num 8, Num 8, Num 8] [Num 7, Num 7, Num 7]
              [Num 6, Num 6, Num 6] [Num 5, Num 5, Num 5]
             2 [Num 0, Num 1] [Num 2, Num 4] [Num 1, Num 0] [Num 3, Num 5] [Num 1, Num 1])
     (Some ex_sle) (Some ex_src) =
     Some (0, ex_heap2 3 [Num 0, Num 1, Num 9] [Num 2, Num 4, Num 8] [Num 1, Num 0, Num 7]
              [Num 3, Num 5, Num 6] [Num 5, Num 5, Num 5]
             2 [Num 0, Num 1] [Num 2, Num 4] [Num 1, Num 0] [Num 3, Num 5] [Num 1, Num 1])"
proof -
  let ?h = "ex_heap2 3 [Num 9, Num 9, Num 9] [Num 8, Num 8, Num 8] [Num 7, Num 7, Num 7]
              [Num 6, Num 6, Num 6] [Num 5, Num 5, Num 5]
             2 [Num 0, Num 1] [Num 2, Num 4] [Num 1, Num 0] [Num 3, Num 5] [Num 1, Num 1]"
  have okd: "sle_ok ?h ex_sle 3" and oks: "sle_ok ?h ex_src 2"
    by (simp_all add: ex2_defs)
  have apart: "set (sle_blocks ?h ex_sle) \<inter> set (sle_blocks ?h ex_src) = {}"
    by (simp add: ex2_defs)
  have le: "(2::nat) \<le> 3" by simp
  from triSLE_copy_prefix [OF okd oks apart le, THEN conjunct1] okd oks show ?thesis
    by (simp add: ex2_defs fun_eq_iff)
qed

lemma residual_spec:
  assumes ok: "sle_ok h ini n" and x: "buf_of h (sle_x rs) = Some X" "n \<le> length X"
    and i: "i < n"
  shows "residual ops h rs ini n i =
     Some (spec_residual ops (the (buf_of h (sle_a ini))) (the (buf_of h (sle_b ini)))
        (the (buf_of h (sle_c ini))) X n i)"
proof -
  from sle_ok_bufs [OF ok] obtain A B C where f:
    "buf_of h (sle_a ini) = Some A" "buf_of h (sle_b ini) = Some B" "buf_of h (sle_c ini) = Some C"
    "length A = n" "length B = n" "length C = n"
    by blast
  show ?thesis
    using i x(2)
    by (auto simp add: residual_def rd_def f x(1) spec_residual_def Let_def)
qed

lemma rd_d:
  assumes ok: "sle_ok h ini n" and i: "i < n"
  shows "rd h (sle_d ini) i = Some (the (buf_of h (sle_d ini)) ! i)"
proof -
  from sle_ok_bufs [OF ok] obtain D where f: "buf_of h (sle_d ini) = Some D" "length D = n"
    by blast
  show ?thesis using i by (simp add: rd_def f)
qed

lemma maxrel_loop_spec:
  fixes ops :: "'f float_ops" and h :: "'f heap"
  assumes ok: "sle_ok h ini n" and x: "buf_of h (sle_x rs) = Some X" "n \<le> length X"
  defines "R \<equiv> spec_residual ops (the (buf_of h (sle_a ini))) (the (buf_of h (sle_b ini)))
        (the (buf_of h (sle_c ini))) X n"
    and "D \<equiv> the (buf_of h (sle_d ini))"
  shows "maxrel_loop ops h rs ini n i m =
     Some (case find (is_nan ops) (map R [i..<n]) of
             Some r \<Rightarrow> r
           | None \<Rightarrow> foldl (float_max ops) m
               (map (\<lambda>i. spec_rel_error ops (R i) (D ! i))
                  (filter (\<lambda>i. \<not> f_eq ops (D ! i) (f_zero ops)) [i..<n])))"
proof (induction "n - i" arbitrary: i m)
  case 0
  then show ?case by (subst maxrel_loop.simps) simp
next
  case (Suc k)
  then have i: "i < n" and k: "k = n - Suc i" by simp_all
  have up: "[i..<n] = i # [Suc i..<n]" using i by (simp add: upt_conv_Cons)
  have r: "residual ops h rs ini n i = Some (R i)"
    unfolding R_def by (rule residual_spec [OF ok x i])
  have d: "rd h (sle_d ini) i = Some (D ! i)"
    unfolding D_def by (rule rd_d [OF ok i])
  show ?case
    by (subst maxrel_loop.simps)
      (simp add: i r d up Suc.hyps(1) [OF k] is_nan_def float_max_def spec_rel_error_def Let_def
        cong: option.case_cong)
qed

section \<open>Maximum relative error\<close>

text \<open>
  C5. For a well-formed original system of size \<open>n\<close> and a solved system whose block of \<open>x\<close>
  has at least \<open>n\<close> cells, \<^verbatim>\<open>triSLE_validate_maxrel\<close> returns \<open>spec_maxrel\<close>: the residuals are
  computed from the original \<open>a\<close>, \<open>b\<close>, \<open>c\<close> and the solved \<open>x\<close>; the result is the maximum of
  \<open>|r[i] - d0[i]| / |d0[i]|\<close> over the rows with \<open>d0[i] \<noteq> 0\<close>, unless a residual is NaN, in
  which case the result is the first such residual, whatever the rows after it hold; and
  that result is NaN.
\<close>

theorem triSLE_validate_maxrel_spec:
  assumes ok: "sle_ok h ini n" and x: "buf_of h (sle_x rs) = Some X" "n \<le> length X"
  shows "triSLE_validate_maxrel ops h (Some rs) (Some ini) =
           Some (spec_maxrel ops (sle_coeffs h ini) X n) \<and>
         ((\<exists>i<n. is_nan ops (spec_residual ops (the (buf_of h (sle_a ini)))
              (the (buf_of h (sle_b ini))) (the (buf_of h (sle_c ini))) X n i))
            \<longrightarrow> is_nan ops (spec_maxrel ops (sle_coeffs h ini) X n))"
proof
  from sle_ok_bufs [OF ok] obtain db where db: "deref_diag h (sle_b ini) = Some db" "diag_n db = n"
    by blast
  show "triSLE_validate_maxrel ops h (Some rs) (Some ini) =
           Some (spec_maxrel ops (sle_coeffs h ini) X n)"
    by (simp add: triSLE_validate_maxrel_def db maxrel_loop_spec [OF ok x] spec_maxrel_def
        sle_coeffs_def)
next
  let ?R = "spec_residual ops (the (buf_of h (sle_a ini)))
              (the (buf_of h (sle_b ini))) (the (buf_of h (sle_c ini))) X n"
  show "(\<exists>i<n. is_nan ops (?R i)) \<longrightarrow> is_nan ops (spec_maxrel ops (sle_coeffs h ini) X n)"
  proof
    assume "\<exists>i<n. is_nan ops (?R i)"
    then have "\<exists>r \<in> set (map ?R [0..<n]). is_nan ops r" by auto
    then obtain r where f: "find (is_nan ops) (map ?R [0..<n]) = Some r"
      by (cases "find (is_nan ops) (map ?R [0..<n])") (auto simp: find_None_iff)
    then have "is_nan ops r" by (auto simp: find_Some_iff)
    with f show "is_nan ops (spec_maxrel ops (sle_coeffs h ini) X n)"
      by (simp add: spec_maxrel_def sle_coeffs_def)
  qed
qed

lemma mape_loop_spec:
  assumes ok: "sle_ok h ini n" and x: "buf_of h (sle_x rs) = Some X" "n \<le> length X"
    and law: "abs_div_law ops"
  shows "mape_loop ops h rs ini n i m =
     Some (foldl (spec_mape_step ops (sle_coeffs h ini) X n) m [i..<n])"
proof (induction "n - i" arbitrary: i m)
  case 0
  then show ?case by (subst mape_loop.simps) simp
next
  case (Suc k)
  then have i: "i < n" and k: "k = n - Suc i" by simp_all
  have up: "[i..<n] = i # [Suc i..<n]" using i by (simp add: upt_conv_Cons)
  from law have l: "\<And>u v. f_abs ops (f_div ops u v) = f_div ops (f_abs ops u) (f_abs ops v)"
    by (simp add: abs_div_law_def)
  show ?case
    by (subst mape_loop.simps)
      (simp add: i residual_spec [OF ok x i] rd_d [OF ok i] up Suc.hyps(1) [OF k]
        spec_mape_step_def sle_coeffs_def spec_rel_error_def Let_def l)
qed

section \<open>Mean absolute percentage error\<close>

text \<open>
  C6. Under the same conditions, in an arithmetic with \<open>|u / v| = |u| / |v|\<close>,
  \<^verbatim>\<open>triSLE_validate_mape\<close> returns \<open>spec_mape\<close>: the rows are added up in order, a row with
  \<open>d0[i] \<noteq> 0\<close> adding \<open>|r[i] - d0[i]| / |d0[i]| * 100\<close>, a row with \<open>d0[i] = 0\<close> and
  \<open>r[i] \<noteq> 0\<close> adding 1.0, and the total is divided by \<open>n\<close>.
\<close>

theorem triSLE_validate_mape_spec:
  assumes ok: "sle_ok h ini n" and x: "buf_of h (sle_x rs) = Some X" "n \<le> length X"
    and law: "abs_div_law ops"
  shows "triSLE_validate_mape ops h (Some rs) (Some ini) =
           Some (spec_mape ops (sle_coeffs h ini) X n)"
proof -
  from sle_ok_bufs [OF ok] obtain db where db: "deref_diag h (sle_b ini) = Some db" "diag_n db = n"
    by blast
  show ?thesis
    by (simp add: triSLE_validate_mape_def db mape_loop_spec [OF ok x law] spec_mape_def)
qed

section \<open>The validators on an empty system\<close>

text \<open>
  C10. When the original system has size 0, \<^verbatim>\<open>triSLE_validate_mape\<close> returns the zero total
  divided by the size, \<open>0.0 / 0\<close>, which is NaN in an arithmetic where that quotient is NaN
  (as in IEEE 754), and \<^verbatim>\<open>triSLE_validate_maxrel\<close> returns 0.0.
\<close>

theorem validate_empty_system:
  assumes b: "deref_diag h (sle_b ini) = Some db" "diag_n db = 0"
    and nan: "is_nan ops (f_div ops (f_zero ops) (f_of_size ops 0))"
  shows "triSLE_validate_mape ops h (Some rs) (Some ini) =
           Some (f_div ops (f_zero ops) (f_of_size ops 0)) \<and>
         is_nan ops (the (triSLE_validate_mape ops h (Some rs) (Some ini))) \<and>
         triSLE_validate_maxrel ops h (Some rs) (Some ini) = Some (f_zero ops)"
  using nan
  by (simp add: triSLE_validate_mape_def triSLE_validate_maxrel_def b mape_loop.simps
      maxrel_loop.simps)

lemma xops_abs_div: "abs_div_law xops"
  unfolding abs_div_law_def xops_sel
proof (intro allI)
  fix u v
  show "x_abs (x_div u v) = x_div (x_abs u) (x_abs v)"
    by (cases u; cases v) (auto simp: x_inf_def)
qed


theorem triSLE_validate_maxrel_spec_witness:
  "sle_ok (ex_heap2 2 [Num 0, Num 0] [Num 0, Num 0] [Num 0, Num 0] [Num 0, Num 0] [Num 1, Num (1 / 2)]
             2 [Num 0, Num 1] [Num 2, Num 4] [Num 1, Num 0] [Num 3, Num 5] [Num 0, Num 0]) ex_src 2 \<and>
   triSLE_validate_maxrel xops
     (ex_heap2 2 [Num 0, Num 0] [Num 0, Num 0] [Num 0, Num 0] [Num 0, Num 0] [Num 1, Num (1 / 2)]
        2 [Num 0, Num 1] [Num 2, Num 4] [Num 1, Num 0] [Num 3, Num 5] [Num 0, Num 0])
     (Some ex_sle) (Some ex_src) = Some (Num (2 / 5)) \<and>
   triSLE_validate_maxrel xops
     (ex_heap2 2 [Num 0, Num 0] [Num 0, Num 0] [Num 0, Num 0] [Num 0, Num 0] [PInf, NInf]
        2 [Num 0, Num 1] [Num 2, Num 4] [Num 1, Num 0] [Num 3, Num 5] [Num 0, Num 0])
     (Some ex_sle) (Some ex_src) = Some NaN"
proof -
  let ?h = "ex_heap2 2 [Num 0, Num 0] [Num 0, Num 0] [Num 0, Num 0] [Num 0, Num 0]
             [Num 1, Num (1 / 2)]
             2 [Num 0, Num 1] [Num 2, Num 4] [Num 1, Num 0] [Num 3, Num 5] [Num 0, Num 0]"
  let ?g = "ex_heap2 2 [Num 0, Num 0] [Num 0, Num 0] [Num 0, Num 0] [Num 0, Num 0] [PInf, NInf]
             2 [Num 0, Num 1] [Num 2, Num 4] [Num 1, Num 0] [Num 3, Num 5] [Num 0, Num 0]"
  have up: "[0..<2] = [0, 1]" by (simp add: upt_rec)
  have okh: "sle_ok ?h ex_src 2" and okg: "sle_ok ?g ex_src 2"
    by (simp_all add: ex2_defs)
  have xh: "buf_of ?h (sle_x ex_sle) = Some [Num 1, Num (1 / 2)]"
    and xg: "buf_of ?g (sle_x ex_sle) = Some [PInf, NInf]"
    by (simp_all add: ex2_defs)
  have l: "2 \<le> length [Num 1, Num (1 / 2)]" "2 \<le> length [PInf, NInf]" by simp_all
  have vh: "spec_maxrel xops (sle_coeffs ?h ex_src) [Num 1, Num (1 / 2)] 2 = Num (2 / 5)"
    by (simp add: spec_maxrel_def sle_coeffs_def ex2_defs up spec_residual_def spec_rel_error_def
        float_max_def is_nan_def xops_sel x_sub_def Let_def)
  have vg: "spec_maxrel xops (sle_coeffs ?g ex_src) [PInf, NInf] 2 = NaN"
    by (simp add: spec_maxrel_def sle_coeffs_def ex2_defs up spec_residual_def spec_rel_error_def
        float_max_def is_nan_def xops_sel x_sub_def x_inf_def Let_def)
  have r1: "triSLE_validate_maxrel xops ?h (Some ex_sle) (Some ex_src) = Some (Num (2 / 5))"
    using triSLE_validate_maxrel_spec [OF okh xh l(1), of xops] unfolding vh by (rule conjunct1)
  have r2: "triSLE_validate_maxrel xops ?g (Some ex_sle) (Some ex_src) = Some NaN"
    using triSLE_validate_maxrel_spec [OF okg xg l(2), of xops] unfolding vg by (rule conjunct1)
  show ?thesis by (intro conjI) (rule okh r1 r2)+
qed

theorem triSLE_validate_mape_spec_witness:
  "sle_ok (ex_heap2 2 [Num 0, Num 0] [Num 0, Num 0] [Num 0, Num 0] [Num 0, Num 0] [Num 1, Num (1 / 2)]
             2 [Num 0, Num 1] [Num 2, Num 4] [Num 1, Num 0] [Num 3, Num 5] [Num 0, Num 0]) ex_src 2 \<and>
   abs_div_law xops \<and>
   triSLE_validate_mape xops
     (ex_heap2 2 [Num 0, Num 0] [Num 0, Num 0] [Num 0, Num 0] [Num 0, Num 0] [Num 1, Num (1 / 2)]
        2 [Num 0, Num 1] [Num 2, Num 4] [Num 1, Num 0] [Num 3, Num 5] [Num 0, Num 0])
     (Some ex_sle) (Some ex_src) = Some (Num (85 / 3)) \<and>
   triSLE_validate_mape xops
     (ex_heap2 2 [Num 0, Num 0] [Num 0, Num 0] [Num 0, Num 0] [Num 0, Num 0] [Num 1, Num 1]
        2 [Num 0, Num 1] [Num 2, Num 4] [Num 1, Num 0] [Num 0, Num 5] [Num 0, Num 0])
     (Some ex_sle) (Some ex_src) = Some (Num (1 / 2))"
proof -
  let ?h = "ex_heap2 2 [Num 0, Num 0] [Num 0, Num 0] [Num 0, Num 0] [Num 0, Num 0]
             [Num 1, Num (1 / 2)]
             2 [Num 0, Num 1] [Num 2, Num 4] [Num 1, Num 0] [Num 3, Num 5] [Num 0, Num 0]"
  let ?g = "ex_heap2 2 [Num 0, Num 0] [Num 0, Num 0] [Num 0, Num 0] [Num 0, Num 0] [Num 1, Num 1]
             2 [Num 0, Num 1] [Num 2, Num 4] [Num 1, Num 0] [Num 0, Num 5] [Num 0, Num 0]"
  have up: "[0..<2] = [0, 1]" by (simp add: upt_rec)
  have okh: "sle_ok ?h ex_src 2" and okg: "sle_ok ?g ex_src 2"
    by (simp_all add: ex2_defs)
  have xh: "buf_of ?h (sle_x ex_sle) = Some [Num 1, Num (1 / 2)]"
    and xg: "buf_of ?g (sle_x ex_sle) = Some [Num 1, Num 1]"
    by (simp_all add: ex2_defs)
  have l: "2 \<le> length [Num 1, Num (1 / 2)]" "2 \<le> length [Num 1, Num (1::rat)]" by simp_all
  have vh: "spec_mape xops (sle_coeffs ?h ex_src) [Num 1, Num (1 / 2)] 2 = Num (85 / 3)"
    by (simp add: spec_mape_def spec_mape_step_def sle_coeffs_def ex2_defs up spec_residual_def
        spec_rel_error_def xops_sel x_sub_def Let_def)
  have vg: "spec_mape xops (sle_coeffs ?g ex_src) [Num 1, Num 1] 2 = Num (1 / 2)"
    by (simp add: spec_mape_def spec_mape_step_def sle_coeffs_def ex2_defs up spec_residual_def
        spec_rel_error_def xops_sel x_sub_def Let_def)
  have r1: "triSLE_validate_mape xops ?h (Some ex_sle) (Some ex_src) = Some (Num (85 / 3))"
    using triSLE_validate_mape_spec [OF okh xh l(1) xops_abs_div] unfolding vh .
  have r2: "triSLE_validate_mape xops ?g (Some ex_sle) (Some ex_src) = Some (Num (1 / 2))"
    using triSLE_validate_mape_spec [OF okg xg l(2) xops_abs_div] unfolding vg .
  show ?thesis by (intro conjI) (rule okh xops_abs_div r1 r2)+
qed

theorem validate_empty_system_witness:
  "deref_diag (ex_heap2 0 [] [] [] [] [] 0 [] [] [] [] [] :: xfloat heap) (sle_b ex_src) =
     Some \<lparr>diag_n = 0, diag_data = Some 16\<rparr> \<and>
   is_nan xops (f_div xops (f_zero xops) (f_of_size xops 0)) \<and>
   triSLE_validate_mape xops (ex_heap2 0 [] [] [] [] [] 0 [] [] [] [] []) (Some ex_sle) (Some ex_src)
     = Some NaN \<and>
   triSLE_validate_maxrel xops (ex_heap2 0 [] [] [] [] [] 0 [] [] [] [] []) (Some ex_sle)
     (Some ex_src) = Some (Num 0)"
proof -
  let ?h = "ex_heap2 0 [] [] [] [] [] 0 [] [] [] [] [] :: xfloat heap"
  have b: "deref_diag ?h (sle_b ex_src) = Some \<lparr>diag_n = 0, diag_data = Some 16\<rparr>"
    by (simp add: ex2_defs)
  have z: "diag_n \<lparr>diag_n = 0, diag_data = Some 16\<rparr> = 0" by simp
  have nan: "is_nan xops (f_div xops (f_zero xops) (f_of_size xops 0))"
    by (simp add: is_nan_def xops_sel x_inf_def)
  from validate_empty_system [OF b z nan, of ex_sle]
  have r1: "triSLE_validate_mape xops ?h (Some ex_sle) (Some ex_src) = Some NaN"
    and r2: "triSLE_validate_maxrel xops ?h (Some ex_sle) (Some ex_src) = Some (Num 0)"
    by (simp_all add: xops_sel x_inf_def)
  show ?thesis by (intro conjI) (rule b nan r1 r2)+
qed

section \<open>Overflow of the row index\<close>

text \<open>
  \<^verbatim>\<open>update_step\<close> computes \<^verbatim>\<open>i + (int)stride\<close> in \<^verbatim>\<open>int\<close>. With more than \<open>2\<^sup>3\<^sup>0\<close> rows and the
  stride \<open>2\<^sup>3\<^sup>0\<close> of level 30 the sum exceeds \<^verbatim>\<open>INT_MAX\<close> for the last rows, and the test
  \<^verbatim>\<open>iRight < (int)n\<close> that guards the block no longer does. The levels before run as
  usual.
\<close>

lemma pcr_levels_prefix:
  assumes n: "0 < n"
  shows "level + k \<le> nl \<Longrightarrow> level + k \<le> 31 \<Longrightarrow>
     (0 < k \<longrightarrow> int n - 1 + 2 ^ (level + k - 1) \<le> INT_MAX) \<Longrightarrow> lay h0 h s n P T V \<Longrightarrow>
     \<exists>h'. pcr_levels ops s nl level (h, somes T) =
            pcr_levels ops s nl (level + k) (h', somes (if even k then T else P)) \<and>
          lay h0 h' s n (if even k then P else T) (if even k then T else P)
            (reduce_from ops n k level V)"
proof (induction k arbitrary: level h P T V)
  case 0
  then show ?case by auto
next
  case (Suc k)
  obtain pa pb pc pd where P: "P = (pa, pb, pc, pd)" by (cases P) auto
  obtain ta tb tc td where T: "T = (ta, tb, tc, td)" by (cases T) auto
  obtain A B C D where V: "V = (A, B, C, D)" by (cases V) auto
  from Suc.prems have lt: "level < nl" and l31: "level < 31" by simp_all
  from Suc.prems have top: "int n - 1 + 2 ^ (level + k) \<le> INT_MAX" by simp
  have "(2::int) ^ level \<le> 2 ^ (level + k)"
    by (intro power_increasing) auto
  with top have ov: "int n - 1 + 2 ^ level \<le> INT_MAX" by linarith
  from level_body_lay [OF Suc.prems(4) [unfolded P T V] n l31 ov, of ops]
  obtain h1 where lb: "level_body ops s level (h, somes T) = Some (h1, somes P)"
    and L1: "lay h0 h1 s n T P (reduce_level ops n level V)"
    unfolding P T V by blast
  from Suc.prems have a1: "Suc level + k \<le> nl" and a2: "Suc level + k \<le> 31" by simp_all
  from top have a3: "0 < k \<longrightarrow> int n - 1 + 2 ^ (Suc level + k - 1) \<le> INT_MAX" by simp
  from Suc.IH [OF a1 a2 a3 L1]
  obtain h' where r: "pcr_levels ops s nl (Suc level) (h1, somes P) =
        pcr_levels ops s nl (Suc level + k) (h', somes (if even k then P else T))"
    and L': "lay h0 h' s n (if even k then T else P) (if even k then P else T)
        (reduce_from ops n k (Suc level) (reduce_level ops n level V))"
    by blast
  have "pcr_levels ops s nl level (h, somes T) =
      pcr_levels ops s nl (Suc level + k) (h', somes (if even k then P else T))"
    using lt lb r by (subst pcr_levels.simps) simp
  with L' show ?case by auto
qed

lemma update_step_overflow:
  assumes b: "deref_diag h (sle_b s) = Some db" and n: "2 ^ 30 < diag_n db"
  shows "update_step ops h s tmp_a tmp_b tmp_c tmp_d 30 = None"
proof -
  have "(2::int) ^ 30 < int (diag_n db)"
    using n by (metis of_nat_less_iff of_nat_numeral of_nat_power)
  then have ov: "\<not> int (diag_n db) - 1 + 2 ^ 30 \<le> INT_MAX" by (simp add: INT_MAX_def)
  from n have nz: "diag_n db \<noteq> 0" by auto
  show ?thesis
    using ov nz
    by (simp add: update_step_def b Let_def split: Option.bind_splits)
qed

lemma total_levels_of_big: "total_levels_of 1073741889 = 31"
  by (simp add: total_levels_of_def float_of_size_def bit_length.simps ceil_log2.simps)

text \<open>
  C3. For a well-formed system of \<open>n = 1073741889 = 2\<^sup>3\<^sup>0 + 65\<close> rows, \<^verbatim>\<open>pcr\<close> runs 31 levels,
  level 30 among them, and at level 30 \<^verbatim>\<open>update_step\<close> has no defined result: the rows do
  not receive the values \<open>a'[i]\<close>, \<open>b'[i]\<close>, \<open>c'[i]\<close>, \<open>d'[i]\<close> that the specification gives for
  every level and every row. (Where the indices are defined they do: \<open>update_step_rows\<close>.)
\<close>

theorem update_step_index_overflow:
  assumes ok: "sle_ok h s 1073741889"
  shows "30 < total_levels_of 1073741889 \<and>
         update_step ops h s tmp_a tmp_b tmp_c tmp_d 30 = None"
proof -
  from sle_ok_bufs [OF ok] obtain db where db: "deref_diag h (sle_b s) = Some db"
    "diag_n db = 1073741889" by blast
  have "update_step ops h s tmp_a tmp_b tmp_c tmp_d 30 = None"
    by (rule update_step_overflow [OF db(1)]) (simp add: db(2))
  then show ?thesis by (simp add: total_levels_of_big)
qed

theorem update_step_index_overflow_witness:
  "sle_ok (ex_heap_tmp 1073741889 (replicate 1073741889 (Num 0)) (replicate 1073741889 (Num 2))
             (replicate 1073741889 (Num 0)) (replicate 1073741889 (Num 6))
             (replicate 1073741889 (Num 0)) (replicate 1073741889 NaN) (replicate 1073741889 NaN)
             (replicate 1073741889 NaN) (replicate 1073741889 NaN)) ex_sle 1073741889 \<and>
   update_step xops
     (ex_heap_tmp 1073741889 (replicate 1073741889 (Num 0)) (replicate 1073741889 (Num 2))
             (replicate 1073741889 (Num 0)) (replicate 1073741889 (Num 6))
             (replicate 1073741889 (Num 0)) (replicate 1073741889 NaN) (replicate 1073741889 NaN)
             (replicate 1073741889 NaN) (replicate 1073741889 NaN))
     ex_sle (Some 20) (Some 21) (Some 22) (Some 23) 30 = None"
proof -
  let ?h = "ex_heap_tmp 1073741889 (replicate 1073741889 (Num 0)) (replicate 1073741889 (Num 2))
             (replicate 1073741889 (Num 0)) (replicate 1073741889 (Num 6))
             (replicate 1073741889 (Num 0)) (replicate 1073741889 NaN) (replicate 1073741889 NaN)
             (replicate 1073741889 NaN) (replicate 1073741889 NaN)"
  have ok: "sle_ok ?h ex_sle 1073741889"
    by (simp add: sle_ok_def diag_ok_def deref_diag_def deref_buf_def data_ptr_def ex_heap_def
        ex_heap_tmp_def ex_sle_def)
  from update_step_index_overflow [OF ok, of xops "Some 20" "Some 21" "Some 22" "Some 23"] ok
  show ?thesis by simp
qed

text \<open>
  C8. For a well-formed system of \<open>n = 1073741889\<close> rows whose four scratch blocks are
  allocated, whatever its coefficients, and so for a decoupled one, \<^verbatim>\<open>pcr\<close> has no defined
  result: it runs the levels 0 to 29 and reaches the overflow at level 30. The
  specification promises \<open>x[i] = k\<close> for a decoupled system of every size. (Up to \<open>2\<^sup>3\<^sup>0\<close>
  rows the promise is kept in exact arithmetic: \<open>pcr_decoupled\<close>.)
\<close>

theorem pcr_index_overflow:
  assumes ok: "sle_ok h s 1073741889" and env: "env_fresh h env" "env_succeeds env"
  shows "pcr ops env h (Some s) = None"
proof -
  define n :: nat where "n = 1073741889"
  note ok = ok [folded n_def]
  have npos: "0 < n" by (simp add: n_def)
  from ok have "diag_ok h (sle_a s) n" by (simp add: sle_ok_def)
  from diag_okD [OF this] obtain qa dga pa A where a: "sle_a s = Some qa" "diags h qa = Some dga"
    "diag_n dga = n" "diag_data dga = Some pa" "bufs h pa = Some A" "length A = n" by blast
  from ok have "diag_ok h (sle_b s) n" by (simp add: sle_ok_def)
  from diag_okD [OF this] obtain qb dgb pb B where b: "sle_b s = Some qb" "diags h qb = Some dgb"
    "diag_n dgb = n" "diag_data dgb = Some pb" "bufs h pb = Some B" "length B = n" by blast
  from ok have "diag_ok h (sle_c s) n" by (simp add: sle_ok_def)
  from diag_okD [OF this] obtain qc dgc pc C where c: "sle_c s = Some qc" "diags h qc = Some dgc"
    "diag_n dgc = n" "diag_data dgc = Some pc" "bufs h pc = Some C" "length C = n" by blast
  from ok have "diag_ok h (sle_d s) n" by (simp add: sle_ok_def)
  from diag_okD [OF this] obtain qd dgd pd D where d: "sle_d s = Some qd" "diags h qd = Some dgd"
    "diag_n dgd = n" "diag_data dgd = Some pd" "bufs h pd = Some D" "length D = n" by blast
  have dp: "data_ptr h (sle_a s) = Some pa" "data_ptr h (sle_b s) = Some pb"
    "data_ptr h (sle_c s) = Some pc" "data_ptr h (sle_d s) = Some pd"
    by (simp_all add: data_ptr_def deref_diag_def a b c d)
  from ok have qdis: "distinct [qa, qb, qc, qd]"
    by (simp add: sle_ok_def a b c d)
  from ok have pdis: "distinct [pa, pb, pc, pd]"
    by (simp add: sle_ok_def dp)
  from env(2) obtain ta ga tb gb tc gc td gd where e: "env_a env = Some (ta, ga)"
    "env_b env = Some (tb, gb)" "env_c env = Some (tc, gc)" "env_d env = Some (td, gd)"
    by (auto simp: env_succeeds_def)
  from env(1) have fresh: "bufs h ta = None" "bufs h tb = None" "bufs h tc = None" "bufs h td = None"
    and tdis: "distinct [ta, tb, tc, td]"
    by (simp_all add: env_fresh_def malloc_fresh_def e List.map_filter_simps)
  have tp: "set [ta, tb, tc, td] \<inter> set [pa, pb, pc, pd] = {}"
    using fresh a(5) b(5) c(5) d(5) by auto
  have dis: "distinct [pa, pb, pc, pd, ta, tb, tc, td]"
    using tp tdis pdis by auto
  define h4 where "h4 = h\<lparr>bufs := (bufs h)(ta \<mapsto> map ga [0..<n], tb \<mapsto> map gb [0..<n],
      tc \<mapsto> map gc [0..<n], td \<mapsto> map gd [0..<n])\<rparr>"
  have L4: "lay h h4 s n (pa, pb, pc, pd) (ta, tb, tc, td) (A, B, C, D)"
    unfolding lay_def h4_def
    using dis qdis
    by (auto simp: slot_def blk_def a b c d diag_restore deref_diag_def)
  have nl: "total_levels_of n = 31" by (simp add: n_def total_levels_of_big)
  have start: "pcr ops env h (Some s) =
     Option.bind (pcr_levels ops s 31 0 (h4, somes (ta, tb, tc, td))) (\<lambda>(h5, tmps1).
       Option.bind (solve_rows ops h5 s n) (\<lambda>h6.
       Option.bind (Option.bind (copy_back h6 s tmps1 n) (\<lambda>h7. swap_buffers h7 s tmps1))
         (\<lambda>(h8, tmps2).
       Option.bind (free_tmps h8 tmps2) (\<lambda>h9. Some (0, h9)))))"
    using npos
    by (simp add: pcr_def deref_diag_def b e malloc_buf_def nl h4_def somes_def Let_def
        n_def [symmetric] del: Option.bind_assoc cong del: if_weak_cong)
  have b29: "0 < (30::nat) \<longrightarrow> int n - 1 + 2 ^ (0 + 30 - 1) \<le> INT_MAX"
    by (simp add: n_def INT_MAX_def)
  from pcr_levels_prefix [OF npos _ _ b29 L4, of 31 ops]
  obtain h' where r: "pcr_levels ops s 31 0 (h4, somes (ta, tb, tc, td)) =
        pcr_levels ops s 31 30 (h', somes (ta, tb, tc, td))"
    and L': "lay h h' s n (pa, pb, pc, pd) (ta, tb, tc, td) (reduce_from ops n 30 0 (A, B, C, D))"
    by auto
  from L' obtain dgb' where b': "deref_diag h' (sle_b s) = Some dgb'" "diag_n dgb' = n"
    unfolding lay_def
    by (auto simp: deref_diag_def b dest!: slotD split: prod.splits)
  have "update_step ops h' s (Some ta) (Some tb) (Some tc) (Some td) 30 = None"
    by (rule update_step_overflow [OF b'(1)]) (simp add: b'(2) n_def)
  then have "pcr_levels ops s 31 30 (h', somes (ta, tb, tc, td)) = None"
    by (subst pcr_levels.simps) (simp add: level_body_def somes_def)
  with r show ?thesis by (simp add: start)
qed

theorem pcr_index_overflow_witness:
  "sle_ok (ex_heap 1073741889 (replicate 1073741889 (Num 0)) (replicate 1073741889 (Num 2))
             (replicate 1073741889 (Num 0)) (replicate 1073741889 (Num 6))
             (replicate 1073741889 (Num 0))) ex_sle 1073741889 \<and>
   env_fresh (ex_heap 1073741889 (replicate 1073741889 (Num 0)) (replicate 1073741889 (Num 2))
             (replicate 1073741889 (Num 0)) (replicate 1073741889 (Num 6))
             (replicate 1073741889 (Num 0))) ex_env \<and>
   env_succeeds ex_env \<and>
   pcr xops ex_env
     (ex_heap 1073741889 (replicate 1073741889 (Num 0)) (replicate 1073741889 (Num 2))
             (replicate 1073741889 (Num 0)) (replicate 1073741889 (Num 6))
             (replicate 1073741889 (Num 0))) (Some ex_sle) = None"
proof -
  let ?h = "ex_heap 1073741889 (replicate 1073741889 (Num 0)) (replicate 1073741889 (Num 2))
             (replicate 1073741889 (Num 0)) (replicate 1073741889 (Num 6))
             (replicate 1073741889 (Num 0))"
  have ok: "sle_ok ?h ex_sle 1073741889"
    by (simp add: sle_ok_def diag_ok_def deref_diag_def deref_buf_def data_ptr_def ex_heap_def
        ex_sle_def)
  have e1: "env_fresh ?h ex_env"
    by (simp add: env_fresh_def malloc_fresh_def ex_env_def ex_heap_def List.map_filter_simps)
  have e2: "env_succeeds ex_env"
    by (simp add: env_succeeds_def ex_env_def)
  from pcr_index_overflow [OF ok e1 e2, of xops] ok e1 e2 show ?thesis by simp
qed

end
